theory Spec2Isabelle
  imports Main "HOL-Library.Sublist" "HOL-Library.Log_Nat"
begin

section \<open>Data model of the task-management client\<close>

text \<open>
  The views are React components over JSON values fetched from the HTTP API. A JavaScript
  \<^verbatim>\<open>Date\<close> built from a date string holds either a time value (milliseconds since the
  epoch) or \<^verbatim>\<open>NaN\<close> (an invalid date). Comparing two dates with \<^verbatim>\<open><\<close> compares their
  time values as numbers, and every comparison with \<^verbatim>\<open>NaN\<close> is false.
\<close>

datatype js_date = InvalidDate | Instant int

fun date_lt :: "js_date \<Rightarrow> js_date \<Rightarrow> bool" where
  "date_lt (Instant a) (Instant b) = (a < b)"
| "date_lt _ _ = False"

text \<open>
  Free text (titles, descriptions, names, search terms) is a JavaScript string: a list of
  UTF-16 code units, here natural numbers. Identifiers, the fixed vocabulary of status,
  priority and role, and the fixed labels and messages of the views are written as
  literals; they are only ever compared with \<^verbatim>\<open>===\<close>. \<open>utf16\<close> gives the code units of
  an ASCII literal.
\<close>

type_synonym js_string = "nat list"

definition utf16 :: "string \<Rightarrow> js_string" where
  "utf16 s = map of_char s"

text \<open>
  A task as the client consumes it. Optional fields are \<open>None\<close> when the JSON value is
  \<^verbatim>\<open>null\<close> or absent. \<open>due_date\<close> is \<open>None\<close> when the field is falsy (\<^verbatim>\<open>null\<close>,
  \<^verbatim>\<open>undefined\<close> or the empty string) and otherwise holds what \<^verbatim>\<open>new Date(due_date)\<close>
  denotes.
\<close>

record task =
  task_id :: string
  title :: js_string
  description :: "js_string option"
  status :: string
  priority :: string
  assigned_to :: "string option"
  category :: "js_string option"
  due_date :: "js_date option"
  created_at :: js_date

text \<open>
  A user as the client consumes it. \<open>is_active\<close> is \<open>None\<close> when the field is absent,
  \<^verbatim>\<open>undefined\<close> or \<^verbatim>\<open>null\<close>.
\<close>

record user =
  user_id :: string
  email :: js_string
  full_name :: js_string
  role :: string
  department :: "js_string option"
  phone :: "js_string option"
  is_active :: "bool option"
  user_created_at :: js_date

text \<open>The aggregate counters of \<^verbatim>\<open>GET /dashboard/stats\<close>, computed by the server.\<close>

record DashboardStats =
  total_employees :: int
  total_tasks :: int
  completed_tasks :: int
  pending_tasks :: int
  in_progress_tasks :: int
  overdue_tasks :: int

section \<open>JavaScript numbers\<close>

text \<open>
  A JavaScript number is an IEEE 754 binary64 value: every arithmetic operation returns the
  exact result rounded to the nearest value with a 53-bit significand, ties to the even
  significand. Finite doubles are modelled as the rationals they denote. \<open>binade x\<close> is the
  exponent \<open>e\<close> with \<open>2^e \<le> x < 2^(e+1)\<close> for positive \<open>x\<close>, and \<open>fl\<close> is the rounding.
  The model is exact in the normal range of binary64 (magnitudes from \<open>2^-1022\<close> up to
  \<open>2^1024\<close>), where neither overflow nor gradual underflow occurs; integers of magnitude
  up to \<open>2^53\<close>, their quotients and a hundred times these all lie in it.
\<close>

definition pow2 :: "int \<Rightarrow> rat" where
  "pow2 e = (if 0 \<le> e then 2 ^ nat e else 1 / 2 ^ nat (- e))"

definition binade :: "rat \<Rightarrow> int" where
  "binade x = (if 1 \<le> x then int (floorlog 2 (nat \<lfloor>x\<rfloor>)) - 1
               else - int (floorlog 2 (nat (\<lceil>1 / x\<rceil> - 1))))"

definition round_half_even :: "rat \<Rightarrow> int" where
  "round_half_even q = (let f = \<lfloor>q\<rfloor>; r = q - of_int f in
     if r < 1 / 2 then f else if 1 / 2 < r then f + 1 else if even f then f else f + 1)"

definition fl :: "rat \<Rightarrow> rat" where
  "fl x = (if x = 0 then 0 else
     let ulp = pow2 (binade \<bar>x\<bar> - 52) in
     sgn x * of_int (round_half_even (\<bar>x\<bar> / ulp)) * ulp)"

definition js_div :: "rat \<Rightarrow> rat \<Rightarrow> rat" where
  "js_div a b = fl (a / b)"

definition js_mul :: "rat \<Rightarrow> rat \<Rightarrow> rat" where
  "js_mul a b = fl (a * b)"

text \<open>
  \<^verbatim>\<open>Math.round(x)\<close> is the integer closest to \<open>x\<close>, the one towards \<open>+\<infinity>\<close> when two are
  equally close.
\<close>

definition Math_round :: "rat \<Rightarrow> int" where
  "Math_round x = \<lfloor>x + 1 / 2\<rfloor>"

section \<open>Dashboard: completion rate and recent tasks\<close>

text \<open>
  \<^verbatim>\<open>const completionRate = stats?.total_tasks > 0
     ? Math.round((stats.completed_tasks / stats.total_tasks) * 100) : 0;\<close>
  \<open>stats\<close> is \<open>None\<close> while it is \<^verbatim>\<open>null\<close> (before the fetch, or after a failed one):
  then \<^verbatim>\<open>stats?.total_tasks\<close> is \<^verbatim>\<open>undefined\<close> and the comparison is false.
\<close>

definition completionRate :: "DashboardStats option \<Rightarrow> int" where
  "completionRate stats =
     (case stats of
        None \<Rightarrow> 0
      | Some s \<Rightarrow>
          if total_tasks s > 0
          then Math_round (js_mul (js_div (of_int (completed_tasks s)) (of_int (total_tasks s))) 100)
          else 0)"

text \<open>
  \<^verbatim>\<open>tasksResponse.data.sort((a, b) => new Date(b.created_at) - new Date(a.created_at))
     .slice(0, 5)\<close>
  The difference of two dates is the difference of their time values, \<^verbatim>\<open>NaN\<close> when one
  of them is invalid; \<^verbatim>\<open>Array.prototype.sort\<close> reads a \<^verbatim>\<open>NaN\<close> from the comparator as
  \<open>0\<close>.
\<close>

fun date_minus :: "js_date \<Rightarrow> js_date \<Rightarrow> int option" where
  "date_minus (Instant a) (Instant b) = Some (a - b)"
| "date_minus _ _ = None"

definition newest_first :: "task \<Rightarrow> task \<Rightarrow> int" where
  "newest_first a b =
     (case date_minus (created_at b) (created_at a) of None \<Rightarrow> 0 | Some v \<Rightarrow> v)"

text \<open>
  ECMAScript fixes the result of \<^verbatim>\<open>sort\<close> for a consistent comparator (the stable
  sorted arrangement) and leaves it to the engine otherwise. The model is the algorithm of
  V8 (Chrome, Node.js) for arrays of fewer than 64 elements: \<open>CountAndMakeRun\<close> takes the
  longest initial run, non-descending or strictly descending, and reverses a descending
  one; \<open>BinaryInsertionSort\<close> then inserts every later element at the position a binary
  search finds for it in the sorted front. Longer arrays are merged from such runs, with
  the same result whenever the comparator is consistent.

  \<^verbatim>\<open>order = Compare(currentElement, previousElement);
  if (isDescending) { if (order >= 0) break; } else { if (order < 0) break; }\<close>
\<close>

fun extend_run :: "('a \<Rightarrow> 'a \<Rightarrow> int) \<Rightarrow> bool \<Rightarrow> 'a \<Rightarrow> 'a list \<Rightarrow> 'a list \<times> 'a list" where
  "extend_run cmp isDescending previousElement [] = ([], [])"
| "extend_run cmp isDescending previousElement (currentElement # rest) =
     (let order = cmp currentElement previousElement in
      if (if isDescending then order \<ge> 0 else order < 0) then ([], currentElement # rest)
      else (let (run, tail) = extend_run cmp isDescending currentElement rest
            in (currentElement # run, tail)))"

fun CountAndMakeRun :: "('a \<Rightarrow> 'a \<Rightarrow> int) \<Rightarrow> 'a list \<Rightarrow> 'a list \<times> 'a list" where
  "CountAndMakeRun cmp [] = ([], [])"
| "CountAndMakeRun cmp [x] = ([x], [])"
| "CountAndMakeRun cmp (elementHigh # elementLow # rest) =
     (let isDescending = (cmp elementLow elementHigh < 0);
          (run, tail) = extend_run cmp isDescending elementLow rest
      in (if isDescending then rev (elementHigh # elementLow # run)
          else elementHigh # elementLow # run, tail))"

text \<open>
  \<^verbatim>\<open>while (left < right) { const mid = left + ((right - left) >> 1);
     const order = Compare(pivot, workArray[mid]);
     if (order < 0) { right = mid; } else { left = mid + 1; } }\<close>
\<close>

function bsearch :: "('a \<Rightarrow> 'a \<Rightarrow> int) \<Rightarrow> 'a \<Rightarrow> 'a list \<Rightarrow> nat \<Rightarrow> nat \<Rightarrow> nat" where
  "bsearch cmp pivot xs left right =
     (if left < right
      then (let mid = left + (right - left) div 2 in
            if cmp pivot (xs ! mid) < 0 then bsearch cmp pivot xs left mid
            else bsearch cmp pivot xs (mid + 1) right)
      else left)"
  by pat_completeness auto
termination
  by (relation "measure (\<lambda>(cmp, pivot, xs, left, right). right - left)") auto

declare bsearch.simps [simp del]

definition insert_pivot :: "('a \<Rightarrow> 'a \<Rightarrow> int) \<Rightarrow> 'a list \<Rightarrow> 'a \<Rightarrow> 'a list" where
  "insert_pivot cmp front pivot =
     (let left = bsearch cmp pivot front 0 (length front)
      in take left front @ pivot # drop left front)"

definition BinaryInsertionSort :: "('a \<Rightarrow> 'a \<Rightarrow> int) \<Rightarrow> 'a list \<Rightarrow> 'a list \<Rightarrow> 'a list" where
  "BinaryInsertionSort cmp run rest = foldl (insert_pivot cmp) run rest"

definition js_sort :: "('a \<Rightarrow> 'a \<Rightarrow> int) \<Rightarrow> 'a list \<Rightarrow> 'a list" where
  "js_sort cmp xs = (let (run, rest) = CountAndMakeRun cmp xs in BinaryInsertionSort cmp run rest)"

definition sortedTasks :: "task list \<Rightarrow> task list" where
  "sortedTasks data = take 5 (js_sort newest_first data)"

section \<open>Task list: the overdue predicate\<close>

text \<open>
  \<^verbatim>\<open>const isOverdue = (dueDate) => { if (!dueDate) return false;
     return new Date(dueDate) < new Date(); }\<close>
  The clock read by \<^verbatim>\<open>new Date()\<close> is the explicit argument \<open>now\<close>.
\<close>

fun isOverdue :: "js_date option \<Rightarrow> int \<Rightarrow> bool" where
  "isOverdue None now = False"
| "isOverdue (Some d) now = date_lt d (Instant now)"

text \<open>
  The due-date line of a task card: the class of the span and the suffix appended to the
  formatted date, both decided by \<open>isOverdue (due_date task)\<close> alone.
\<close>

definition dueDateSpan :: "task \<Rightarrow> int \<Rightarrow> string \<times> string" where
  "dueDateSpan t now =
     (if isOverdue (due_date t) now then ''text-red-600 font-medium'' else '''',
      if isOverdue (due_date t) now then '' (Overdue)'' else '''')"

section \<open>Task list and user list: client-side filtering\<close>

text \<open>
  \<^verbatim>\<open>String.prototype.toLowerCase\<close> maps every code point to its lowercase mapping in the
  Unicode character database. The model carries the tables for Basic Latin, Latin-1 and
  the Greek letters from U+0384 to U+03CE and leaves every other code point as it is.
  On these blocks the mapping of a code point is a single code point, with one mapping
  that depends on the context: the capital sigma U+03A3 becomes the final sigma U+03C2
  when it ends a word, that is, when a cased letter precedes it (case-ignorable
  characters between them apart) and none follows it, and the small sigma U+03C3
  otherwise.
\<close>

definition simple_lower :: "nat \<Rightarrow> nat" where
  "simple_lower c =
     (if (65 \<le> c \<and> c \<le> 90) \<or> (192 \<le> c \<and> c \<le> 214) \<or> (216 \<le> c \<and> c \<le> 222) \<or>
         (913 \<le> c \<and> c \<le> 929) \<or> (931 \<le> c \<and> c \<le> 939) then c + 32
      else if c = 902 then 940
      else if 904 \<le> c \<and> c \<le> 906 then c + 37
      else if c = 908 then 972
      else if c = 910 \<or> c = 911 then c + 63
      else c)"

definition case_ignorable :: "nat \<Rightarrow> bool" where
  "case_ignorable c = (c \<in> set [39, 46, 58, 94, 96, 168, 173, 175, 180, 183, 184, 900, 901, 903])"

definition cased :: "nat \<Rightarrow> bool" where
  "cased c =
     ((65 \<le> c \<and> c \<le> 90) \<or> (97 \<le> c \<and> c \<le> 122) \<or> c = 170 \<or> c = 181 \<or> c = 186 \<or>
      (192 \<le> c \<and> c \<le> 214) \<or> (216 \<le> c \<and> c \<le> 246) \<or> (248 \<le> c \<and> c \<le> 255) \<or>
      c = 902 \<or> (904 \<le> c \<and> c \<le> 906) \<or> c = 908 \<or> (910 \<le> c \<and> c \<le> 929) \<or>
      (931 \<le> c \<and> c \<le> 974))"

fun cased_after_ignorables :: "nat list \<Rightarrow> bool" where
  "cased_after_ignorables [] = False"
| "cased_after_ignorables (c # cs) =
     (if case_ignorable c then cased_after_ignorables cs else cased c)"

text \<open>
  \<open>lower_from before rest\<close> lowers \<open>rest\<close>, where \<open>before\<close> holds the code units in front of
  it, the nearest first.
\<close>

fun lower_from :: "nat list \<Rightarrow> nat list \<Rightarrow> nat list" where
  "lower_from before [] = []"
| "lower_from before (c # rest) =
     (if c = 931
      then (if cased_after_ignorables before \<and> \<not> cased_after_ignorables rest then 962 else 963)
      else simple_lower c) # lower_from (c # before) rest"

definition toLowerCase :: "js_string \<Rightarrow> js_string" where
  "toLowerCase s = lower_from [] s"

text \<open>\<^verbatim>\<open>hay.includes(needle)\<close> looks for \<open>needle\<close> at every position of \<open>hay\<close>.\<close>

fun js_includes :: "'a list \<Rightarrow> 'a list \<Rightarrow> bool" where
  "js_includes [] needle = (needle = [])"
| "js_includes (c # cs) needle = (prefix needle (c # cs) \<or> js_includes cs needle)"

text \<open>
  \<^verbatim>\<open>const filteredTasks = tasks.filter(task => {
     const matchesSearch = task.title.toLowerCase().includes(searchTerm.toLowerCase()) ||
        task.description?.toLowerCase().includes(searchTerm.toLowerCase());
     const matchesStatus = statusFilter === 'all' || task.status === statusFilter;
     const matchesPriority = priorityFilter === 'all' || task.priority === priorityFilter;
     return matchesSearch && matchesStatus && matchesPriority; });\<close>
  With an absent description the optional chain yields \<^verbatim>\<open>undefined\<close>, which is falsy.
\<close>

definition filteredTasks :: "task list \<Rightarrow> js_string \<Rightarrow> string \<Rightarrow> string \<Rightarrow> task list" where
  "filteredTasks tasks searchTerm statusFilter priorityFilter =
     filter (\<lambda>task.
       let matchesSearch =
             (js_includes (toLowerCase (title task)) (toLowerCase searchTerm) \<or>
              (case description task of
                 None \<Rightarrow> False
               | Some d \<Rightarrow> js_includes (toLowerCase d) (toLowerCase searchTerm)));
           matchesStatus = (statusFilter = ''all'' \<or> status task = statusFilter);
           matchesPriority = (priorityFilter = ''all'' \<or> priority task = priorityFilter)
       in matchesSearch \<and> matchesStatus \<and> matchesPriority) tasks"


section \<open>User management: derived counters\<close>

text \<open>
  \<^verbatim>\<open>const userStats = { total: users.length,
     admins: users.filter(u => u.role === 'admin').length,
     managers: users.filter(u => u.role === 'manager').length,
     employees: users.filter(u => u.role === 'employee').length,
     active: users.filter(u => u.is_active !== false).length };\<close>
\<close>

record user_stats =
  total :: nat
  admins :: nat
  managers :: nat
  employees :: nat
  active :: nat

definition userStats :: "user list \<Rightarrow> user_stats" where
  "userStats users =
     \<lparr>total = length users,
      admins = length (filter (\<lambda>u. role u = ''admin'') users),
      managers = length (filter (\<lambda>u. role u = ''manager'') users),
      employees = length (filter (\<lambda>u. role u = ''employee'') users),
      active = length (filter (\<lambda>u. is_active u \<noteq> Some False) users)\<rparr>"

section \<open>Requests, notifications and the handlers of the views\<close>

text \<open>
  What a handler does beyond updating the state of its component is recorded in an effect
  log: the HTTP requests issued (method and path under the API base, with the body of a
  \<^verbatim>\<open>PUT\<close>), the notifications shown by \<^verbatim>\<open>toast\<close>, the lines written to the console
  and the confirmation prompts shown. What the outside world answers is an argument of
  the handler: the settled promise of the request, fulfilled with the response data or
  rejected with an error, and the answer to a confirmation prompt. A rejection is a
  transport failure (no \<^verbatim>\<open>error.response\<close>) or a response of the API, whose payload may
  carry a \<^verbatim>\<open>detail\<close> text.
\<close>

datatype request =
  Get string
| Post string
| Put string "(string \<times> string option) list"
| Delete string

datatype toast = ToastSuccess string | ToastError string

record effects =
  requests :: "request list"
  toasts :: "toast list"
  console :: "string list"
  prompts :: "string list"

datatype api_error = NetworkError | ApiError "string option"

datatype 'a response = Fulfilled 'a | Rejected api_error

definition issue :: "request \<Rightarrow> effects \<Rightarrow> effects" where
  "issue r fx = fx\<lparr>requests := requests fx @ [r]\<rparr>"

definition toast_success :: "string \<Rightarrow> effects \<Rightarrow> effects" where
  "toast_success msg fx = fx\<lparr>toasts := toasts fx @ [ToastSuccess msg]\<rparr>"

definition toast_error :: "string \<Rightarrow> effects \<Rightarrow> effects" where
  "toast_error msg fx = fx\<lparr>toasts := toasts fx @ [ToastError msg]\<rparr>"

definition console_error :: "string \<Rightarrow> effects \<Rightarrow> effects" where
  "console_error msg fx = fx\<lparr>console := console fx @ [msg]\<rparr>"

text \<open>
  \<^verbatim>\<open>error.response?.data?.detail || 'Failed to create user'\<close>: the detail when it is there
  and not the empty string, the fallback otherwise.
\<close>

fun detail_or :: "api_error \<Rightarrow> string \<Rightarrow> string" where
  "detail_or NetworkError fallback = fallback"
| "detail_or (ApiError None) fallback = fallback"
| "detail_or (ApiError (Some d)) fallback = (if d = [] then fallback else d)"

subsection \<open>Task list\<close>

record task_draft =
  draft_title :: js_string
  draft_description :: js_string
  draft_priority :: string
  draft_due_date :: "js_date option"
  draft_assigned_to :: string
  draft_category :: js_string

definition emptyTask :: task_draft where
  "emptyTask = \<lparr>draft_title = [], draft_description = [], draft_priority = ''medium'',
     draft_due_date = None, draft_assigned_to = [], draft_category = []\<rparr>"

record tasklist_state =
  tl_tasks :: "task list"
  tl_users :: "user list"
  tl_loading :: bool
  tl_searchTerm :: js_string
  tl_statusFilter :: string
  tl_priorityFilter :: string
  tl_showCreateDialog :: bool
  tl_showEditDialog :: bool
  tl_editingTask :: "task option"
  tl_newTask :: task_draft

definition fetchTasks ::
  "task list response \<Rightarrow> tasklist_state \<Rightarrow> effects \<Rightarrow> tasklist_state \<times> effects" where
  "fetchTasks resp st fx =
     (let fx1 = issue (Get ''/tasks'') fx in
      case resp of
        Fulfilled d \<Rightarrow> (st\<lparr>tl_tasks := d, tl_loading := False\<rparr>, fx1)
      | Rejected e \<Rightarrow>
          (st\<lparr>tl_loading := False\<rparr>,
           toast_error ''Failed to load tasks'' (console_error ''Error fetching tasks:'' fx1)))"

definition TaskList_fetchUsers ::
  "user list response \<Rightarrow> tasklist_state \<Rightarrow> effects \<Rightarrow> tasklist_state \<times> effects" where
  "TaskList_fetchUsers resp st fx =
     (let fx1 = issue (Get ''/users'') fx in
      case resp of
        Fulfilled d \<Rightarrow> (st\<lparr>tl_users := d\<rparr>, fx1)
      | Rejected e \<Rightarrow> (st, console_error ''Error fetching users:'' fx1))"

text \<open>
  In \<^verbatim>\<open>handleCreateTask\<close> the request body is built inside the \<^verbatim>\<open>try\<close> block;
  \<^verbatim>\<open>toISOString\<close> throws on an invalid date, which the \<^verbatim>\<open>catch\<close> block of the
  handler receives before any request is issued.
\<close>

definition handleCreateTask ::
  "task response \<Rightarrow> tasklist_state \<Rightarrow> effects \<Rightarrow> tasklist_state \<times> effects" where
  "handleCreateTask resp st fx =
     (if draft_due_date (tl_newTask st) = Some InvalidDate
      then (st, toast_error ''Failed to create task'' (console_error ''Error creating task:'' fx))
      else
        let fx1 = issue (Post ''/tasks'') fx in
        case resp of
          Fulfilled created \<Rightarrow>
            (st\<lparr>tl_tasks := created # tl_tasks st, tl_showCreateDialog := False,
                tl_newTask := emptyTask\<rparr>,
             toast_success ''Task created successfully!'' fx1)
        | Rejected e \<Rightarrow>
            (st, toast_error ''Failed to create task'' (console_error ''Error creating task:'' fx1)))"

definition handleUpdateTask ::
  "string \<Rightarrow> (string \<times> string option) list \<Rightarrow> task response \<Rightarrow> tasklist_state \<Rightarrow> effects
     \<Rightarrow> tasklist_state \<times> effects" where
  "handleUpdateTask taskId updates resp st fx =
     (let fx1 = issue (Put (''/tasks/'' @ taskId) updates) fx in
      case resp of
        Fulfilled updated \<Rightarrow>
          (st\<lparr>tl_tasks := map (\<lambda>task. if task_id task = taskId then updated else task) (tl_tasks st)\<rparr>,
           toast_success ''Task updated successfully!'' fx1)
      | Rejected e \<Rightarrow>
          (st, toast_error ''Failed to update task'' (console_error ''Error updating task:'' fx1)))"

text \<open>
  \<^verbatim>\<open>const handleDeleteTask = async (taskId) => {
     if (!window.confirm('Are you sure you want to delete this task?')) { return; }
     try { await axios.delete(`${API}/tasks/${taskId}`);
           setTasks(tasks.filter(task => task.id !== taskId));
           toast.success('Task deleted successfully!'); }
     catch (error) { console.error('Error deleting task:', error);
                     toast.error('Failed to delete task'); } };\<close>
  \<open>confirmed\<close> is what \<^verbatim>\<open>window.confirm\<close> returns.
\<close>

definition handleDeleteTask ::
  "string \<Rightarrow> bool \<Rightarrow> unit response \<Rightarrow> tasklist_state \<Rightarrow> effects \<Rightarrow> tasklist_state \<times> effects" where
  "handleDeleteTask taskId confirmed resp st fx =
     (let fx0 = fx\<lparr>prompts := prompts fx @ [''Are you sure you want to delete this task?'']\<rparr> in
      if \<not> confirmed then (st, fx0)
      else
        let fx1 = issue (Delete (''/tasks/'' @ taskId)) fx0 in
        case resp of
          Fulfilled _ \<Rightarrow>
            (st\<lparr>tl_tasks := filter (\<lambda>task. task_id task \<noteq> taskId) (tl_tasks st)\<rparr>,
             toast_success ''Task deleted successfully!'' fx1)
        | Rejected e \<Rightarrow>
            (st, toast_error ''Failed to delete task'' (console_error ''Error deleting task:'' fx1)))"

subsection \<open>User management\<close>

record user_draft =
  draft_email :: js_string
  draft_password :: js_string
  draft_full_name :: js_string
  draft_role :: string
  draft_department :: js_string
  draft_phone :: js_string

definition emptyUser :: user_draft where
  "emptyUser = \<lparr>draft_email = [], draft_password = [], draft_full_name = [],
     draft_role = ''employee'', draft_department = [], draft_phone = []\<rparr>"

record usermgmt_state =
  um_users :: "user list"
  um_loading :: bool
  um_searchTerm :: js_string
  um_roleFilter :: string
  um_showCreateDialog :: bool
  um_showEditDialog :: bool
  um_editingUser :: "user option"
  um_newUser :: user_draft

definition fetchUsers ::
  "user list response \<Rightarrow> usermgmt_state \<Rightarrow> effects \<Rightarrow> usermgmt_state \<times> effects" where
  "fetchUsers resp st fx =
     (let fx1 = issue (Get ''/users'') fx in
      case resp of
        Fulfilled d \<Rightarrow> (st\<lparr>um_users := d, um_loading := False\<rparr>, fx1)
      | Rejected e \<Rightarrow>
          (st\<lparr>um_loading := False\<rparr>,
           toast_error ''Failed to load users'' (console_error ''Error fetching users:'' fx1)))"

definition handleCreateUser ::
  "user response \<Rightarrow> usermgmt_state \<Rightarrow> effects \<Rightarrow> usermgmt_state \<times> effects" where
  "handleCreateUser resp st fx =
     (let fx1 = issue (Post ''/auth/register'') fx in
      case resp of
        Fulfilled created \<Rightarrow>
          (st\<lparr>um_users := created # um_users st, um_showCreateDialog := False,
              um_newUser := emptyUser\<rparr>,
           toast_success ''User created successfully!'' fx1)
      | Rejected e \<Rightarrow>
          (st, toast_error (detail_or e ''Failed to create user'')
                 (console_error ''Error creating user:'' fx1)))"

definition handleUpdateUser ::
  "string \<Rightarrow> (string \<times> string option) list \<Rightarrow> user response \<Rightarrow> usermgmt_state \<Rightarrow> effects
     \<Rightarrow> usermgmt_state \<times> effects" where
  "handleUpdateUser userId updates resp st fx =
     (let fx1 = issue (Put (''/users/'' @ userId) updates) fx in
      case resp of
        Fulfilled updated \<Rightarrow>
          (st\<lparr>um_users := map (\<lambda>user. if user_id user = userId then updated else user) (um_users st),
              um_showEditDialog := False, um_editingUser := None\<rparr>,
           toast_success ''User updated successfully!'' fx1)
      | Rejected e \<Rightarrow>
          (st, toast_error ''Failed to update user'' (console_error ''Error updating user:'' fx1)))"

subsection \<open>Dashboard\<close>

text \<open>
  \<^verbatim>\<open>fetchDashboardData\<close> awaits \<^verbatim>\<open>Promise.all\<close> of both requests: both are issued, and
  the \<^verbatim>\<open>catch\<close> block runs when either is rejected.
\<close>

record dashboard_state =
  db_stats :: "DashboardStats option"
  db_recentTasks :: "task list"
  db_loading :: bool

definition fetchDashboardData ::
  "DashboardStats response \<Rightarrow> task list response \<Rightarrow> dashboard_state \<Rightarrow> effects
     \<Rightarrow> dashboard_state \<times> effects" where
  "fetchDashboardData statsResponse tasksResponse st fx =
     (let fx1 = issue (Get ''/tasks'') (issue (Get ''/dashboard/stats'') fx) in
      case (statsResponse, tasksResponse) of
        (Fulfilled s, Fulfilled d) \<Rightarrow>
          (st\<lparr>db_stats := Some s, db_recentTasks := sortedTasks d, db_loading := False\<rparr>, fx1)
      | _ \<Rightarrow>
          (st\<lparr>db_loading := False\<rparr>,
           toast_error ''Failed to load dashboard data''
             (console_error ''Error fetching dashboard data:'' fx1)))"

section \<open>What the views render\<close>

text \<open>
  A view is modelled by the controls it renders, in document order: a button or a menu
  item with its label and the action of its \<^verbatim>\<open>onClick\<close>, or a navigation link with its
  label and target. The session user is \<open>None\<close> when \<^verbatim>\<open>useAuth()\<close> has none;
  \<^verbatim>\<open>user?.role\<close> is then \<^verbatim>\<open>undefined\<close>, and reading \<^verbatim>\<open>user.id\<close> throws a TypeError.
  \<^verbatim>\<open>format\<close> of date-fns throws a RangeError on an invalid date. An exception thrown
  while a component renders leaves nothing of it rendered: the result is the error.
\<close>

datatype action =
  SetShowCreateDialog bool
| SubmitForm
| CancelEdit
| StartEditingTask string
| StartEditingUser string
| CallDeleteTask string
| CallUpdateTask string "(string \<times> string option) list"
| GoTo string
| Reload
| Logout

datatype affordance =
  Button string action
| MenuItem string action
| NavLink string string

datatype js_error = TypeError | RangeError


fun action_of :: "affordance \<Rightarrow> action option" where
  "action_of (Button _ a) = Some a"
| "action_of (MenuItem _ a) = Some a"
| "action_of (NavLink _ _) = None"

definition roleOf :: "user option \<Rightarrow> string option" where
  "roleOf user = map_option role user"

subsection \<open>Task list\<close>

text \<open>
  The header: \<^verbatim>\<open>(user?.role === 'admin' || user?.role === 'manager') && <Dialog ...>\<close>,
  whose trigger is the button \<open>Create Task\<close> and whose form, shown while the dialog is
  open, ends with \<open>Cancel\<close> and the submit button. The form holds
  \<^verbatim>\<open>{newTask.due_date ? format(newTask.due_date, "PPP") : "Pick a date"}\<close>, which is
  evaluated whenever the header is, whether the dialog is open or not.
\<close>

definition createTaskDialog ::
  "user option \<Rightarrow> task_draft \<Rightarrow> bool \<Rightarrow> js_error + affordance list" where
  "createTaskDialog user newTask showCreateDialog =
     (if roleOf user = Some ''admin'' \<or> roleOf user = Some ''manager''
      then (if draft_due_date newTask = Some InvalidDate then Inl RangeError
            else Inr (Button ''Create Task'' (SetShowCreateDialog True) #
                   (if showCreateDialog
                    then [Button ''Cancel'' (SetShowCreateDialog False),
                          Button ''Create Task'' SubmitForm]
                    else [])))
      else Inr [])"

text \<open>
  The menu of a card:
  \<^verbatim>\<open>(user?.role !== 'employee' || task.assigned_to === user.id) && <DropdownMenu> Edit
     {user?.role !== 'employee' && Delete} </DropdownMenu>\<close>.
  Without a user the first disjunct holds, so \<^verbatim>\<open>user.id\<close> is not read.
\<close>

definition taskMenu :: "user option \<Rightarrow> task \<Rightarrow> affordance list" where
  "taskMenu user task =
     (if roleOf user \<noteq> Some ''employee'' \<or>
         (case user of None \<Rightarrow> False | Some u \<Rightarrow> assigned_to task = Some (user_id u))
      then MenuItem ''Edit'' (StartEditingTask (task_id task)) #
           (if roleOf user \<noteq> Some ''employee''
            then [MenuItem ''Delete'' (CallDeleteTask (task_id task))]
            else [])
      else [])"

text \<open>
  The quick status update of a card:
  \<^verbatim>\<open>{task.assigned_to === user.id && task.status !== 'completed' && ( ...
     {task.status === 'pending' && <Button onClick={() =>
         handleUpdateTask(task.id, { status: 'in_progress' })}>Start</Button>}
     {task.status === 'in_progress' && <Button onClick={() =>
         handleUpdateTask(task.id, { status: 'completed' })}>Complete</Button>} )}\<close>.
  Here \<^verbatim>\<open>user.id\<close> is read for every card.
\<close>

definition quickActions :: "user option \<Rightarrow> task \<Rightarrow> js_error + affordance list" where
  "quickActions user task =
     (case user of
        None \<Rightarrow> Inl TypeError
      | Some u \<Rightarrow>
          Inr (if assigned_to task = Some (user_id u) \<and> status task \<noteq> ''completed''
               then (if status task = ''pending''
                     then [Button ''Start''
                             (CallUpdateTask (task_id task) [(''status'', Some ''in_progress'')])]
                     else []) @
                    (if status task = ''in_progress''
                     then [Button ''Complete''
                             (CallUpdateTask (task_id task) [(''status'', Some ''completed'')])]
                     else [])
               else []))"

text \<open>
  \<^verbatim>\<open>const formatDate = (dateString) => { if (!dateString) return 'No due date';
     return format(new Date(dateString), 'MMM dd, yyyy'); };\<close>
  The text of a valid date is not spelled out: it is the date in the pattern of the call.
\<close>

datatype date_text = NoDueDate | Formatted int

fun formatDate :: "js_date option \<Rightarrow> js_error + date_text" where
  "formatDate None = Inr NoDueDate"
| "formatDate (Some InvalidDate) = Inl RangeError"
| "formatDate (Some (Instant ms)) = Inr (Formatted ms)"

text \<open>
  A card evaluates its menu first, then \<^verbatim>\<open>{formatDate(task.due_date)}\<close> on the due-date
  line, then the quick status update.
\<close>

definition taskCard :: "user option \<Rightarrow> task \<Rightarrow> js_error + affordance list" where
  "taskCard user task =
     (case formatDate (due_date task) of
        Inl e \<Rightarrow> Inl e
      | Inr _ \<Rightarrow>
          (case quickActions user task of
             Inl e \<Rightarrow> Inl e
           | Inr quick \<Rightarrow> Inr (taskMenu user task @ quick)))"

fun renderCards :: "user option \<Rightarrow> task list \<Rightarrow> js_error + affordance list" where
  "renderCards user [] = Inr []"
| "renderCards user (task # rest) =
     (case taskCard user task of
        Inl e \<Rightarrow> Inl e
      | Inr first \<Rightarrow>
          (case renderCards user rest of
             Inl e \<Rightarrow> Inl e
           | Inr others \<Rightarrow> Inr (first @ others)))"

text \<open>
  The component returns the spinner alone while \<open>loading\<close>. Otherwise it evaluates the
  header, then either the empty-state card (with a second \<open>Create Task\<close> button under the
  same role test) or one card for each filtered task, in their order; the first exception
  ends the rendering.
\<close>

definition TaskList_render :: "user option \<Rightarrow> tasklist_state \<Rightarrow> js_error + affordance list" where
  "TaskList_render user st =
     (if tl_loading st then Inr []
      else
        let shown = filteredTasks (tl_tasks st) (tl_searchTerm st) (tl_statusFilter st)
                      (tl_priorityFilter st)
        in case createTaskDialog user (tl_newTask st) (tl_showCreateDialog st) of
             Inl e \<Rightarrow> Inl e
           | Inr header \<Rightarrow>
               if shown = []
               then Inr (header @
                      (if roleOf user = Some ''admin'' \<or> roleOf user = Some ''manager''
                       then [Button ''Create Task'' (SetShowCreateDialog True)]
                       else []))
               else (case renderCards user shown of
                       Inl e \<Rightarrow> Inl e
                     | Inr cards \<Rightarrow> Inr (header @ cards)))"

subsection \<open>User management\<close>




subsection \<open>Dashboard and navigation\<close>





section \<open>The task filter in the words of the specification\<close>

text \<open>
  The specification describes the filter by three independent predicates. Two characters
  are the same letter up to case when they are equal or are the capital and the small form
  of one of the twenty-six letters; a field contains the search term case-insensitively
  when some contiguous part of the field equals the term letter by letter up to case. A
  status or priority filter set to \<open>all\<close> accepts every task and any other value asks for
  exactly that value.
\<close>

definition letter_pairs :: "(nat \<times> nat) list" where
  "letter_pairs =
     zip (utf16 ''ABCDEFGHIJKLMNOPQRSTUVWXYZ'') (utf16 ''abcdefghijklmnopqrstuvwxyz'')"

definition same_letter :: "nat \<Rightarrow> nat \<Rightarrow> bool" where
  "same_letter a b = (a = b \<or> (a, b) \<in> set letter_pairs \<or> (b, a) \<in> set letter_pairs)"

definition spec_contains_ignoring_case :: "js_string \<Rightarrow> js_string \<Rightarrow> bool" where
  "spec_contains_ignoring_case field term =
     (\<exists>pre part post. field = pre @ part @ post \<and> list_all2 same_letter part term)"

definition spec_matchesSearch :: "js_string \<Rightarrow> task \<Rightarrow> bool" where
  "spec_matchesSearch term t =
     (spec_contains_ignoring_case (title t) term \<or>
      (\<exists>d. description t = Some d \<and> spec_contains_ignoring_case d term))"

definition spec_matchesStatus :: "string \<Rightarrow> task \<Rightarrow> bool" where
  "spec_matchesStatus wanted t = (if wanted = ''all'' then True else status t = wanted)"

definition spec_matchesPriority :: "string \<Rightarrow> task \<Rightarrow> bool" where
  "spec_matchesPriority wanted t = (if wanted = ''all'' then True else priority t = wanted)"

text \<open>Text of ASCII characters only, and a task whose searched fields are such text.\<close>

definition ascii :: "js_string \<Rightarrow> bool" where
  "ascii s = list_all (\<lambda>c. c < 128) s"

definition ascii_task :: "task \<Rightarrow> bool" where
  "ascii_task t = (ascii (title t) \<and> (case description t of None \<Rightarrow> True | Some d \<Rightarrow> ascii d))"

section \<open>Newest first, in the words of the specification\<close>

text \<open>
  A list is ordered by \<open>created_at\<close> descending when every task in it is not older than
  the tasks behind it; the order of two tasks is defined when both dates are valid.
\<close>

definition not_older :: "task \<Rightarrow> task \<Rightarrow> bool" where
  "not_older a b =
     (case (created_at a, created_at b) of
        (Instant x, Instant y) \<Rightarrow> y \<le> x
      | _ \<Rightarrow> False)"

section \<open>Example data\<close>

definition exampleTask :: "string \<Rightarrow> string \<Rightarrow> string option \<Rightarrow> int \<Rightarrow> task" where
  "exampleTask i s a c = \<lparr>task_id = i, title = utf16 ''Write report'', description = None,
     status = s, priority = ''high'', assigned_to = a, category = None, due_date = None,
     created_at = Instant c\<rparr>"

definition exampleTaskList :: "task list \<Rightarrow> bool \<Rightarrow> tasklist_state" where
  "exampleTaskList ts l = \<lparr>tl_tasks = ts, tl_users = [], tl_loading = l, tl_searchTerm = [],
     tl_statusFilter = ''all'', tl_priorityFilter = ''all'', tl_showCreateDialog = False,
     tl_showEditDialog = False, tl_editingTask = None, tl_newTask = emptyTask\<rparr>"

definition noEffects :: effects where
  "noEffects = \<lparr>requests = [], toasts = [], console = [], prompts = []\<rparr>"

definition exampleCards :: "task list" where
  "exampleCards = [exampleTask ''t1'' ''pending'' (Some ''u1'') 1,
                   exampleTask ''t2'' ''in_progress'' (Some ''u1'') 2,
                   exampleTask ''t3'' ''completed'' (Some ''u1'') 3,
                   exampleTask ''t4'' ''pending'' (Some ''u2'') 4]"

definition exampleData :: "task list" where
  "exampleData = [exampleTask ''a'' ''pending'' None 3, exampleTask ''b'' ''pending'' None 9,
                  exampleTask ''c'' ''completed'' None 3, exampleTask ''d'' ''pending'' None 1,
                  exampleTask ''e'' ''pending'' None 7, exampleTask ''f'' ''cancelled'' None 5,
                  exampleTask ''g'' ''pending'' None 4]"

text \<open>Three tasks, the second with a creation date that does not parse.\<close>

definition exampleUnparsed :: "task list" where
  "exampleUnparsed = [exampleTask ''a'' ''pending'' None 3,
                      (exampleTask ''n'' ''pending'' None 0)\<lparr>created_at := InvalidDate\<rparr>,
                      exampleTask ''b'' ''pending'' None 9]"

text \<open>
  A task with a Greek title of seven capital letters (U+03A3 U+03A5 U+03A3 U+03A4 U+0391
  U+03A3 U+0397, a word that begins sigma, upsilon, sigma), and the first three letters of
  that title as a search term.
\<close>

definition exampleGreekTask :: task where
  "exampleGreekTask = (exampleTask ''t7'' ''pending'' None 7)
     \<lparr>title := [931, 933, 931, 932, 913, 931, 919]\<rparr>"

definition exampleGreekTerm :: js_string where
  "exampleGreekTerm = [931, 933, 931]"


definition exampleUser :: "string \<Rightarrow> string \<Rightarrow> user" where
  "exampleUser i r = \<lparr>user_id = i, email = utf16 ''ada@company.com'',
     full_name = utf16 ''Ada Byron'', role = r, department = None, phone = None,
     is_active = None, user_created_at = Instant 0\<rparr>"



section \<open>Properties of the overdue predicate\<close>

text \<open>
  Claim C3. For a task with a due date and any current time, the overdue predicate is true
  exactly when the due date is strictly before the current time, whatever the status of
  the task is: replacing the status by any other leaves the predicate and the label as
  they are, so a completed or cancelled task with a past due date is marked overdue. A
  due date that does not parse is before no time, and the predicate is false for it.
\<close>

theorem isOverdue_strictly_before_any_status:
  "(due_date t = Some (Instant d) \<longrightarrow>
      isOverdue (due_date (t\<lparr>status := s\<rparr>)) now = (d < now)
      \<and> (snd (dueDateSpan (t\<lparr>status := s\<rparr>) now) = '' (Overdue)'') = (d < now))
   \<and> (due_date t = Some InvalidDate \<longrightarrow>
      \<not> isOverdue (due_date (t\<lparr>status := s\<rparr>)) now)"
  by (simp add: dueDateSpan_def)

theorem isOverdue_strictly_before_any_status_witness:
  "isOverdue (due_date ((exampleTask ''t1'' ''pending'' None 10)
       \<lparr>due_date := Some (Instant 1000), status := ''completed''\<rparr>)) 2000
   \<and> \<not> isOverdue (due_date ((exampleTask ''t1'' ''pending'' None 10)
       \<lparr>due_date := Some (Instant 1000), status := ''cancelled''\<rparr>)) 1000
   \<and> \<not> isOverdue (due_date ((exampleTask ''t1'' ''pending'' None 10)
       \<lparr>due_date := Some InvalidDate, status := ''completed''\<rparr>)) 2000"
  using isOverdue_strictly_before_any_status
      [of "(exampleTask ''t1'' ''pending'' None 10)\<lparr>due_date := Some (Instant 1000)\<rparr>"
          1000 "''completed''" 2000]
    isOverdue_strictly_before_any_status
      [of "(exampleTask ''t1'' ''pending'' None 10)\<lparr>due_date := Some (Instant 1000)\<rparr>"
          1000 "''cancelled''" 1000]
    isOverdue_strictly_before_any_status
      [of "(exampleTask ''t1'' ''pending'' None 10)\<lparr>due_date := Some InvalidDate\<rparr>"
          0 "''completed''" 2000]
  by simp

text \<open>
  Claim C10. A task whose due date is absent is never labelled overdue, at any current
  time: the predicate returns false and the label carries no overdue suffix.
\<close>

theorem isOverdue_absent_due_date:
  "isOverdue None now = False
   \<and> dueDateSpan (t\<lparr>due_date := None\<rparr>) now = ('''', '''')"
  by (simp add: dueDateSpan_def)

section \<open>Properties of the completion rate\<close>

text \<open>
  The values the specification lists: no statistics or no tasks give 0, 3 of 10 give 30
  and 1 of 3 gives 33.
\<close>

lemma completionRate_examples:
  "completionRate None = 0"
  "completionRate (Some \<lparr>total_employees = 4, total_tasks = 0, completed_tasks = 0,
      pending_tasks = 0, in_progress_tasks = 0, overdue_tasks = 0\<rparr>) = 0"
  "completionRate (Some \<lparr>total_employees = 4, total_tasks = 10, completed_tasks = 3,
      pending_tasks = 5, in_progress_tasks = 2, overdue_tasks = 0\<rparr>) = 30"
  "completionRate (Some \<lparr>total_employees = 4, total_tasks = 3, completed_tasks = 1,
      pending_tasks = 1, in_progress_tasks = 1, overdue_tasks = 0\<rparr>) = 33"
  by code_simp+

lemma completionRate_no_tasks:
  "total_tasks s \<le> 0 \<Longrightarrow> completionRate (Some s) = 0"
  by (simp add: completionRate_def)

subsection \<open>The rounding of the number model\<close>

text \<open>
  The rounding \<open>fl\<close> stays within half a unit in the last place: \<open>binade\<close> brackets its
  argument between two consecutive powers of two, rounding to the nearest integer moves
  a value by at most one half, and so \<open>fl x\<close> differs from \<open>x\<close> by at most \<open>|x| / 2^53\<close>.
\<close>

lemma pow2_powi: "pow2 e = 2 powi e"
  by (simp add: pow2_def power_int_def inverse_eq_divide power_one_over)

lemma pow2_pos: "0 < pow2 e"
  by (simp add: pow2_def)

lemma pow2_add: "pow2 (a + b) = pow2 a * pow2 b"
  by (simp add: pow2_powi power_int_add)

lemma pow2_nat: "pow2 (int n) = 2 ^ n"
  by (simp add: pow2_def)

lemma pow2_neg_nat: "pow2 (- int n) = 1 / 2 ^ n"
  by (simp add: pow2_powi power_int_minus_divide)

lemma binade_bounds:
  assumes "0 < x"
  shows "pow2 (binade x) \<le> x \<and> x < pow2 (binade x + 1)"
proof (cases "1 \<le> x")
  case True
  define n where "n = nat \<lfloor>x\<rfloor>"
  define k where "k = floorlog 2 n"
  from True have f1: "1 \<le> \<lfloor>x\<rfloor>" by (simp add: le_floor_iff)
  then have n1: "1 \<le> n" unfolding n_def by linarith
  then have b: "2 ^ (k - 1) \<le> n" "n < 2 ^ k"
    using floorlog_bounds [of n 2] by (simp_all add: k_def)
  from n1 have "k \<noteq> 0" by (simp add: k_def floorlog_eq_zero_iff)
  then have k1: "1 \<le> k" by simp
  have "of_int \<lfloor>x\<rfloor> \<le> x" "x < of_int \<lfloor>x\<rfloor> + 1" by linarith+
  moreover have "(of_nat n :: rat) = of_int \<lfloor>x\<rfloor>"
    using f1 by (simp add: n_def)
  ultimately have nx: "of_nat n \<le> x" "x < of_nat n + 1" by simp_all
  have e: "binade x = int k - 1" using True by (simp add: binade_def n_def k_def)
  have "int k - 1 = int (k - 1)" using k1 by linarith
  with e have pe: "pow2 (binade x) = 2 ^ (k - 1)" by (metis pow2_nat)
  have "binade x + 1 = int k" using e by simp
  then have pe1: "pow2 (binade x + 1) = 2 ^ k" by (metis pow2_nat)
  have "(of_nat (2 ^ (k - 1)) :: rat) \<le> of_nat n" using b(1) by (rule iffD2 [OF of_nat_le_iff])
  then have r1: "(2::rat) ^ (k - 1) \<le> of_nat n" by simp
  from b(2) have "n + 1 \<le> 2 ^ k" by simp
  then have "(of_nat (n + 1) :: rat) \<le> of_nat (2 ^ k)" by (rule iffD2 [OF of_nat_le_iff])
  then have r2: "(of_nat n :: rat) + 1 \<le> 2 ^ k" by simp
  from r1 nx(1) have lo: "pow2 (binade x) \<le> x" unfolding pe by linarith
  from r2 nx(2) have hi: "x < pow2 (binade x + 1)" unfolding pe1 by linarith
  from lo hi show ?thesis ..
next
  case False
  define y where "y = 1 / x"
  define n where "n = nat (\<lceil>y\<rceil> - 1)"
  define k where "k = floorlog 2 n"
  from False assms have y1: "1 < y" by (simp add: y_def)
  then have c2: "2 \<le> \<lceil>y\<rceil>" by linarith
  then have n1: "1 \<le> n" unfolding n_def by linarith
  then have b: "2 ^ (k - 1) \<le> n" "n < 2 ^ k"
    using floorlog_bounds [of n 2] by (simp_all add: k_def)
  from n1 have "k \<noteq> 0" by (simp add: k_def floorlog_eq_zero_iff)
  then have k1: "1 \<le> k" by simp
  have "of_int \<lceil>y\<rceil> - 1 < y" "y \<le> of_int \<lceil>y\<rceil>" by linarith+
  moreover have "(of_nat n :: rat) = of_int \<lceil>y\<rceil> - 1"
    using c2 by (simp add: n_def)
  ultimately have ny: "of_nat n < y" "y \<le> of_nat n + 1" by simp_all
  have e: "binade x = - int k" using False by (simp add: binade_def n_def k_def y_def)
  then have pe: "pow2 (binade x) = 1 / 2 ^ k" by (simp add: pow2_neg_nat)
  have "binade x + 1 = - int (k - 1)" using k1 e by linarith
  then have pe1: "pow2 (binade x + 1) = 1 / 2 ^ (k - 1)" by (metis pow2_neg_nat)
  have "(of_nat (2 ^ (k - 1)) :: rat) \<le> of_nat n" using b(1) by (rule iffD2 [OF of_nat_le_iff])
  then have r1: "(2::rat) ^ (k - 1) \<le> of_nat n" by simp
  from b(2) have "n + 1 \<le> 2 ^ k" by simp
  then have "(of_nat (n + 1) :: rat) \<le> of_nat (2 ^ k)" by (rule iffD2 [OF of_nat_le_iff])
  then have r2: "(of_nat n :: rat) + 1 \<le> 2 ^ k" by simp
  from r1 ny(1) have ylo: "2 ^ (k - 1) < y" by linarith
  from r2 ny(2) have yhi: "y \<le> 2 ^ k" by linarith
  have xy: "x = 1 / y" using assms by (simp add: y_def)
  from y1 have y0: "0 < y" by simp
  from yhi y0 have lo: "1 / 2 ^ k \<le> x" unfolding xy by (simp add: frac_le)
  have "1 / y < 1 / 2 ^ (k - 1)" using ylo by (simp add: frac_less2)
  then have hi: "x < 1 / 2 ^ (k - 1)" unfolding xy .
  from lo hi show ?thesis unfolding pe pe1 ..
qed

lemma round_half_even_error: "\<bar>of_int (round_half_even q) - q\<bar> \<le> 1 / 2"
proof -
  have "of_int \<lfloor>q\<rfloor> \<le> q" "q < of_int \<lfloor>q\<rfloor> + 1" by linarith+
  then show ?thesis by (auto simp: round_half_even_def Let_def)
qed

lemma fl_error: "\<bar>fl x - x\<bar> \<le> \<bar>x\<bar> / 2 ^ 53"
proof (cases "x = 0")
  case True
  then show ?thesis by (simp add: fl_def)
next
  case False
  define e where "e = binade \<bar>x\<bar>"
  define ulp where "ulp = pow2 (e - 52)"
  define m where "m = round_half_even (\<bar>x\<bar> / ulp)"
  have up: "0 < ulp" by (simp add: ulp_def pow2_pos)
  have flx: "fl x = sgn x * of_int m * ulp"
    using False by (simp add: fl_def Let_def m_def ulp_def e_def)
  have "\<bar>of_int m - \<bar>x\<bar> / ulp\<bar> \<le> 1 / 2" unfolding m_def by (rule round_half_even_error)
  then have "\<bar>of_int m - \<bar>x\<bar> / ulp\<bar> * ulp \<le> 1 / 2 * ulp" using up by (simp add: mult_right_mono)
  moreover have "\<bar>of_int m - \<bar>x\<bar> / ulp\<bar> * ulp = \<bar>(of_int m - \<bar>x\<bar> / ulp) * ulp\<bar>"
    using up by (simp add: abs_mult_pos)
  moreover have "(of_int m - \<bar>x\<bar> / ulp) * ulp = of_int m * ulp - \<bar>x\<bar>"
    using up by (simp add: left_diff_distrib)
  ultimately have 1: "\<bar>of_int m * ulp - \<bar>x\<bar>\<bar> \<le> ulp / 2" by simp
  have "x = sgn x * \<bar>x\<bar>" by (simp add: mult_sgn_abs)
  then have "fl x - x = sgn x * (of_int m * ulp - \<bar>x\<bar>)"
    by (simp add: flx right_diff_distrib mult.assoc)
  then have "\<bar>fl x - x\<bar> = \<bar>sgn x * (of_int m * ulp - \<bar>x\<bar>)\<bar>"
    by simp
  also have "\<dots> = \<bar>of_int m * ulp - \<bar>x\<bar>\<bar>" using False by (simp add: abs_mult abs_sgn_eq)
  finally have 2: "\<bar>fl x - x\<bar> \<le> ulp / 2" using 1 by simp
  have "pow2 e \<le> \<bar>x\<bar>" using False binade_bounds [of "\<bar>x\<bar>"] by (simp add: e_def)
  moreover have "pow2 e = ulp * 2 ^ 52"
    using pow2_add [of "e - 52" 52] by (simp add: ulp_def pow2_def)
  ultimately have "ulp / 2 \<le> \<bar>x\<bar> / 2 ^ 53" by (simp add: field_simps)
  with 2 show ?thesis by simp
qed

subsection \<open>The completion rate away from ties\<close>

text \<open>
  Dividing and then multiplying by 100 loses less than \<open>300 / 2^53\<close> of the quotient.
  When the exact percentage is not halfway between two integers it is at least
  \<open>1 / (2 \<times> total)\<close> away from the nearest such point, which is more than that loss for
  every count of completed tasks up to \<open>2^43\<close>: there the displayed rate is the exact
  percentage rounded to the nearest integer.
\<close>

lemma fl_error_numeral: "\<bar>fl x - x\<bar> \<le> \<bar>x\<bar> / 9007199254740992"
  using fl_error [of x] by simp

lemma percentage_error:
  assumes "0 \<le> q"
  shows "\<bar>fl (fl q * 100) - 100 * q\<bar> \<le> 300 * q / 9007199254740992"
proof -
  have "\<bar>fl q - q\<bar> \<le> \<bar>q\<bar> / 9007199254740992" by (rule fl_error_numeral)
  with assms have e1: "fl q - q \<le> q / 9007199254740992" "q - fl q \<le> q / 9007199254740992"
    by linarith+
  with assms have x1: "0 \<le> fl q" "fl q \<le> 2 * q" by linarith+
  have "\<bar>fl (fl q * 100) - fl q * 100\<bar> \<le> \<bar>fl q * 100\<bar> / 9007199254740992"
    by (rule fl_error_numeral)
  with x1 have e2: "fl (fl q * 100) - fl q * 100 \<le> 200 * q / 9007199254740992"
    "fl q * 100 - fl (fl q * 100) \<le> 200 * q / 9007199254740992"
    by linarith+
  from e1 e2 show ?thesis by linarith
qed

lemma floor_between:
  fixes x p :: rat
  assumes "0 < t" "0 < r" "r < 2 * t" "\<bar>x - p\<bar> < 1 / (2 * of_int t)"
    "p + 1 / 2 = of_int k + of_int r / (2 * of_int t)"
  shows "\<lfloor>x + 1 / 2\<rfloor> = k \<and> \<lfloor>p + 1 / 2\<rfloor> = k"
proof -
  define T :: rat where "T = of_int t"
  define R :: rat where "R = of_int r"
  define d :: rat where "d = 1 / (2 * T)"
  have T: "0 < T" using assms(1) by (simp add: T_def)
  have "1 \<le> r" "r + 1 \<le> 2 * t" using assms(2,3) by simp_all
  then have "(of_int 1 :: rat) \<le> of_int r" "(of_int (r + 1) :: rat) \<le> of_int (2 * t)"
    by (simp_all only: of_int_le_iff)
  then have R: "1 \<le> R" "R + 1 \<le> 2 * T" by (simp_all add: R_def T_def)
  have Rd: "R / (2 * T) = R * d" by (simp add: d_def)
  have Td: "2 * T * d = 1" using T by (simp add: d_def)
  have d0: "0 < d" using T by (simp add: d_def)
  from R(1) d0 have lo: "d \<le> R * d" by simp
  from R(2) d0 have "(R + 1) * d \<le> 2 * T * d" by (simp only: mult_le_cancel_right_pos)
  then have hi: "R * d \<le> 1 - d" unfolding Td by (simp add: algebra_simps)
  from assms(4) have close: "x - p < d" "p - x < d" by (simp_all add: abs_less_iff d_def T_def)
  from assms(5) have mid: "p + 1 / 2 = of_int k + R * d" by (simp add: R_def T_def d_def)
  from close lo hi mid d0 have "of_int k < x + 1 / 2" "x + 1 / 2 < of_int k + 1" by linarith+
  then have 1: "\<lfloor>x + 1 / 2\<rfloor> = k" by (simp add: floor_unique)
  from lo hi mid d0 have "of_int k \<le> p + 1 / 2" "p + 1 / 2 < of_int k + 1" by linarith+
  then have 2: "\<lfloor>p + 1 / 2\<rfloor> = k" by (simp add: floor_unique)
  from 1 2 show ?thesis ..
qed

lemma completionRate_off_ties:
  assumes "0 < total_tasks s" "0 \<le> completed_tasks s" "completed_tasks s \<le> 2 ^ 43"
    "(200 * completed_tasks s + total_tasks s) mod (2 * total_tasks s) \<noteq> 0"
  shows "completionRate (Some s) = Math_round (100 * of_int (completed_tasks s) / of_int (total_tasks s))"
proof -
  define c t where "c = completed_tasks s" and "t = total_tasks s"
  define C T :: rat where "C = of_int c" and "T = of_int t"
  define q :: rat where "q = C / T"
  define k r where "k = (200 * c + t) div (2 * t)" and "r = (200 * c + t) mod (2 * t)"
  have t0: "0 < t" using assms(1) by (simp add: t_def)
  then have T: "0 < T" by (simp add: T_def)
  have "0 \<le> c" using assms(2) by (simp add: c_def)
  then have C0: "0 \<le> C" by (simp add: C_def)
  with T have q0: "0 \<le> q" by (simp add: q_def)
  have "0 \<le> r" "r < 2 * t" "r \<noteq> 0" using t0 assms(4) by (simp_all add: r_def c_def t_def)
  then have r: "0 < r" "r < 2 * t" by simp_all
  have "200 * c + t = 2 * t * k + r" by (simp add: k_def r_def)
  then have "(of_int (200 * c + t) :: rat) = of_int (2 * t * k + r)" by (simp only:)
  then have "200 * C + T = 2 * T * of_int k + of_int r" by (simp add: C_def T_def)
  then have "(200 * C + T) / (2 * T) = (2 * T * of_int k + of_int r) / (2 * T)" by (simp only:)
  then have mid: "100 * q + 1 / 2 = of_int k + of_int r / (2 * of_int t)"
    using T by (simp add: q_def add_divide_distrib T_def)
  have "c \<le> 8796093022208" using assms(3) by (simp add: c_def)
  then have "(of_int c :: rat) \<le> of_int 8796093022208" by (simp only: of_int_le_iff)
  then have Cb: "C \<le> 8796093022208" by (simp add: C_def)
  have qT: "q * T = C" using T by (simp add: q_def)
  have "300 * q / 9007199254740992 * (2 * T) = 600 * C / 9007199254740992"
    using qT by (simp add: algebra_simps)
  also have "\<dots> < 1" using Cb by simp
  finally have small: "300 * q / 9007199254740992 * (2 * T) < 1" .
  have T2: "0 < 2 * T" using T by simp
  have "300 * q / 9007199254740992 < 1 / (2 * T)"
    using T2 small by (rule mult_imp_less_div_pos)
  with percentage_error [OF q0] have close: "\<bar>fl (fl q * 100) - 100 * q\<bar> < 1 / (2 * of_int t)"
    by (simp add: T_def)
  from floor_between [OF t0 r close mid]
  have "Math_round (fl (fl q * 100)) = Math_round (100 * q)" by (simp add: Math_round_def)
  then show ?thesis
    using assms(1) by (simp add: completionRate_def js_mul_def js_div_def q_def C_def T_def c_def t_def)
qed

text \<open>
  Claim C1. The displayed completion rate is meant to be \<open>100 \<times> completed / total\<close>
  rounded to the nearest integer. The code divides first and multiplies the rounded
  quotient by 100 afterwards: with 23 of 40 tasks completed the exact percentage is
  57.5, which rounds to 58, but the double nearest to 23/40 times 100 is rounded to
  \<open>57.5 - 2^-47\<close>, and the dashboard displays 57.
\<close>

theorem completionRate_tie_rounds_below:
  "completionRate (Some \<lparr>total_employees = 4, total_tasks = 40, completed_tasks = 23,
      pending_tasks = 10, in_progress_tasks = 7, overdue_tasks = 0\<rparr>) = 57
   \<and> Math_round (100 * 23 / 40) = 58"
  by code_simp

section \<open>Properties of the task filter\<close>

lemma js_includes_iff: "js_includes hay needle \<longleftrightarrow> (\<exists>pre post. hay = pre @ needle @ post)"
proof (induction hay)
  case Nil
  then show ?case by auto
next
  case (Cons c cs)
  show ?case
  proof
    assume "js_includes (c # cs) needle"
    then consider "prefix needle (c # cs)" | "js_includes cs needle" by auto
    then show "\<exists>pre post. c # cs = pre @ needle @ post"
    proof cases
      case 1
      then obtain post where "c # cs = needle @ post" by (auto simp: prefix_def)
      then have "c # cs = [] @ needle @ post" by simp
      then show ?thesis by blast
    next
      case 2
      with Cons.IH obtain pre post where "cs = pre @ needle @ post" by blast
      then have "c # cs = (c # pre) @ needle @ post" by simp
      then show ?thesis by blast
    qed
  next
    assume "\<exists>pre post. c # cs = pre @ needle @ post"
    then obtain pre post where e: "c # cs = pre @ needle @ post" by blast
    show "js_includes (c # cs) needle"
    proof (cases pre)
      case Nil
      with e have "prefix needle (c # cs)" by (simp add: prefix_def)
      then show ?thesis by simp
    next
      case (Cons p ps)
      with e have "cs = ps @ needle @ post" by simp
      with Cons.IH have "js_includes cs needle" by blast
      then show ?thesis by simp
    qed
  qed
qed

lemma letter_pairs_eval:
  "letter_pairs = [(65, 97), (66, 98), (67, 99), (68, 100), (69, 101), (70, 102), (71, 103),
     (72, 104), (73, 105), (74, 106), (75, 107), (76, 108), (77, 109), (78, 110), (79, 111),
     (80, 112), (81, 113), (82, 114), (83, 115), (84, 116), (85, 117), (86, 118), (87, 119),
     (88, 120), (89, 121), (90, 122)]"
  by code_simp

lemma letter_pairs_iff: "(a, b) \<in> set letter_pairs \<longleftrightarrow> 65 \<le> a \<and> a \<le> 90 \<and> b = a + 32"
  unfolding letter_pairs_eval by (simp only: set_simps insert_iff empty_iff prod.inject) arith

lemma simple_lower_ascii: "c < 128 \<Longrightarrow> simple_lower c = (if 65 \<le> c \<and> c \<le> 90 then c + 32 else c)"
  by (simp add: simple_lower_def)

lemma same_letter_iff:
  "a < 128 \<Longrightarrow> b < 128 \<Longrightarrow> simple_lower a = simple_lower b \<longleftrightarrow> same_letter a b"
  unfolding same_letter_def letter_pairs_iff by (simp add: simple_lower_ascii) arith

lemma lower_from_ascii: "ascii s \<Longrightarrow> lower_from before s = map simple_lower s"
  by (induction s arbitrary: before) (auto simp: ascii_def)

lemma toLowerCase_ascii: "ascii s \<Longrightarrow> toLowerCase s = map simple_lower s"
  by (simp add: toLowerCase_def lower_from_ascii)

lemma ascii_append: "ascii (xs @ ys) \<longleftrightarrow> ascii xs \<and> ascii ys"
  by (simp add: ascii_def)

lemma same_lower_iff:
  assumes "ascii part" "ascii term"
  shows "list_all2 same_letter part term \<longleftrightarrow> map simple_lower part = map simple_lower term"
proof -
  have "list_all2 same_letter part term
      \<longleftrightarrow> list_all2 (\<lambda>a b. simple_lower a = simple_lower b) part term"
  proof
    assume "list_all2 same_letter part term"
    then show "list_all2 (\<lambda>a b. simple_lower a = simple_lower b) part term"
      by (rule list.rel_mono_strong) (use assms in \<open>auto simp: ascii_def list_all_iff same_letter_iff\<close>)
  next
    assume "list_all2 (\<lambda>a b. simple_lower a = simple_lower b) part term"
    then show "list_all2 same_letter part term"
      by (rule list.rel_mono_strong) (use assms in \<open>auto simp: ascii_def list_all_iff same_letter_iff\<close>)
  qed
  also have "\<dots> \<longleftrightarrow> list_all2 (=) (map simple_lower part) (map simple_lower term)"
    by (simp add: list_all2_map1 list_all2_map2)
  finally show ?thesis by (simp add: list.rel_eq)
qed

lemma includes_lower_iff:
  assumes "ascii field" "ascii term"
  shows "js_includes (toLowerCase field) (toLowerCase term) \<longleftrightarrow> spec_contains_ignoring_case field term"
proof
  assume "js_includes (toLowerCase field) (toLowerCase term)"
  then obtain pre post where e: "map simple_lower field = pre @ map simple_lower term @ post"
    using assms by (auto simp: js_includes_iff toLowerCase_ascii)
  then obtain us vs where f: "field = us @ vs" "pre = map simple_lower us"
      "map simple_lower term @ post = map simple_lower vs"
    by (auto simp: map_eq_append_conv)
  from f(3) obtain ws zs where g: "vs = ws @ zs" "map simple_lower term = map simple_lower ws"
    by (auto simp: append_eq_map_conv)
  from f(1) g(1) assms(1) have "ascii ws" by (simp add: ascii_append)
  with g(2) assms(2) have "list_all2 same_letter ws term" by (simp add: same_lower_iff)
  with f(1) g(1) show "spec_contains_ignoring_case field term"
    unfolding spec_contains_ignoring_case_def by blast
next
  assume "spec_contains_ignoring_case field term"
  then obtain pre part post where h: "field = pre @ part @ post" "list_all2 same_letter part term"
    unfolding spec_contains_ignoring_case_def by blast
  from h(1) assms(1) have "ascii part" by (simp add: ascii_append)
  with h(2) assms(2) have "map simple_lower part = map simple_lower term" by (simp add: same_lower_iff)
  with h(1) have "map simple_lower field
      = map simple_lower pre @ map simple_lower term @ map simple_lower post" by simp
  then show "js_includes (toLowerCase field) (toLowerCase term)"
    using assms unfolding js_includes_iff toLowerCase_ascii [OF assms(1)] toLowerCase_ascii [OF assms(2)]
    by blast
qed

text \<open>
  On text of ASCII characters the filter of the source is the filter by the conjunction of
  the three predicates of the specification: there the lowercase mapping touches the
  twenty-six capital letters only and no context rule applies.
\<close>

lemma filteredTasks_ascii:
  assumes "ascii term" "\<forall>t \<in> set ts. ascii_task t"
  shows "filteredTasks ts term sf pf =
     filter (\<lambda>t. spec_matchesSearch term t \<and> spec_matchesStatus sf t \<and> spec_matchesPriority pf t) ts"
  unfolding filteredTasks_def
proof (rule filter_cong [OF refl])
  fix t assume "t \<in> set ts"
  with assms(2) have a: "ascii (title t)" "\<And>d. description t = Some d \<Longrightarrow> ascii d"
    by (auto simp: ascii_task_def)
  show "(let matchesSearch =
             (js_includes (toLowerCase (title t)) (toLowerCase term) \<or>
              (case description t of
                 None \<Rightarrow> False
               | Some d \<Rightarrow> js_includes (toLowerCase d) (toLowerCase term)));
           matchesStatus = (sf = ''all'' \<or> status t = sf);
           matchesPriority = (pf = ''all'' \<or> priority t = pf)
       in matchesSearch \<and> matchesStatus \<and> matchesPriority)
    = (spec_matchesSearch term t \<and> spec_matchesStatus sf t \<and> spec_matchesPriority pf t)"
    using a assms(1)
    by (auto simp: includes_lower_iff spec_matchesSearch_def spec_matchesStatus_def
          spec_matchesPriority_def Let_def split: option.splits)
qed

text \<open>
  The status and the priority filter act independently of the search, and a filter set to
  \<open>all\<close> accepts every task, whatever the text is.
\<close>

lemma filteredTasks_all_is_no_filter:
  "filteredTasks ts term sf pf
     = filter (\<lambda>t. spec_matchesStatus sf t \<and> spec_matchesPriority pf t)
         (filteredTasks ts term ''all'' ''all'')"
  by (auto simp: filteredTasks_def spec_matchesStatus_def spec_matchesPriority_def Let_def
        intro: filter_cong)

text \<open>
  Claim C2. The search is meant to match a term that occurs in the title whatever the
  case of the letters, and it misses one: the task titled with the seven Greek capitals
  U+03A3 U+03A5 U+03A3 U+03A4 U+0391 U+03A3 U+0397 is searched for its own first three
  letters. The term is a part of the title as it stands, so the task satisfies the search
  predicate of the specification; but lowercasing turns the last sigma of the term, which
  ends a word there, into the final sigma U+03C2, and the same sigma inside the title into
  U+03C3, so the lowercased title does not contain the lowercased term and the filter
  lists nothing.
\<close>

theorem filteredTasks_misses_final_sigma:
  "title exampleGreekTask = exampleGreekTerm @ [932, 913, 931, 919]
   \<and> spec_matchesSearch exampleGreekTerm exampleGreekTask
   \<and> toLowerCase (title exampleGreekTask) = [963, 965, 963, 964, 945, 963, 951]
   \<and> toLowerCase exampleGreekTerm = [963, 965, 962]
   \<and> filteredTasks [exampleGreekTask] exampleGreekTerm ''all'' ''all'' = []"
proof -
  have 1: "title exampleGreekTask = exampleGreekTerm @ [932, 913, 931, 919]"
    by (simp add: exampleGreekTask_def exampleGreekTerm_def exampleTask_def)
  have "list_all2 same_letter exampleGreekTerm exampleGreekTerm"
    by (simp add: list_all2_same same_letter_def)
  with 1 have "spec_contains_ignoring_case (title exampleGreekTask) exampleGreekTerm"
    unfolding spec_contains_ignoring_case_def
    by (intro exI [of _ "[]"] exI [of _ exampleGreekTerm] exI [of _ "[932, 913, 931, 919]"]) simp
  then have 2: "spec_matchesSearch exampleGreekTerm exampleGreekTask"
    by (simp add: spec_matchesSearch_def)
  have 3: "toLowerCase (title exampleGreekTask) = [963, 965, 963, 964, 945, 963, 951]"
    by code_simp
  have 4: "toLowerCase exampleGreekTerm = [963, 965, 962]"
    by code_simp
  have 5: "filteredTasks [exampleGreekTask] exampleGreekTerm ''all'' ''all'' = []"
    by code_simp
  from 1 2 3 4 5 show ?thesis by (intro conjI)
qed

section \<open>Properties of the user counters\<close>

text \<open>
  Claim C9. The counters derived from the fetched users: the total is the length of the
  collection, each role counter is the number of entries with exactly that role, and the
  active counter is the number of entries whose \<open>is_active\<close> is not \<open>false\<close>. An entry
  without \<open>is_active\<close> counts as active, one with \<open>is_active = false\<close> does not.
\<close>

theorem userStats_counts:
  "total (userStats us) = length us
   \<and> admins (userStats us) = card {i. i < length us \<and> role (us ! i) = ''admin''}
   \<and> managers (userStats us) = card {i. i < length us \<and> role (us ! i) = ''manager''}
   \<and> employees (userStats us) = card {i. i < length us \<and> role (us ! i) = ''employee''}
   \<and> active (userStats us) = card {i. i < length us \<and> is_active (us ! i) \<noteq> Some False}
   \<and> active (userStats (u\<lparr>is_active := None\<rparr> # us)) = Suc (active (userStats us))
   \<and> active (userStats (u\<lparr>is_active := Some False\<rparr> # us)) = active (userStats us)"
proof -
  have scan: "length (filter P us) = card {i. i < length us \<and> P (us ! i)}" for P
    by (rule length_filter_conv_card)
  have counters: "total (userStats us) = length us"
    "admins (userStats us) = card {i. i < length us \<and> role (us ! i) = ''admin''}"
    "managers (userStats us) = card {i. i < length us \<and> role (us ! i) = ''manager''}"
    "employees (userStats us) = card {i. i < length us \<and> role (us ! i) = ''employee''}"
    "active (userStats us) = card {i. i < length us \<and> is_active (us ! i) \<noteq> Some False}"
    by (simp_all add: userStats_def scan)
  have absent: "active (userStats (u\<lparr>is_active := None\<rparr> # us)) = Suc (active (userStats us))"
    by (simp add: userStats_def)
  have inactive: "active (userStats (u\<lparr>is_active := Some False\<rparr> # us)) = active (userStats us)"
    by (simp add: userStats_def)
  from counters absent inactive show ?thesis by (intro conjI)
qed

section \<open>Properties of deleting a task\<close>

text \<open>
  Claim C6. When the user does not confirm the prompt, deleting issues no request, shows
  no notification and leaves the state of the task list as it was. The state changes only
  after a confirmation and a fulfilled \<open>DELETE\<close> request for that task, and then the
  task list is the former one without the tasks of that id.
\<close>

theorem handleDeleteTask_needs_confirmation:
  "(\<not> confirmed \<longrightarrow>
      fst (handleDeleteTask taskId confirmed resp st fx) = st
      \<and> requests (snd (handleDeleteTask taskId confirmed resp st fx)) = requests fx
      \<and> toasts (snd (handleDeleteTask taskId confirmed resp st fx)) = toasts fx)
   \<and> (fst (handleDeleteTask taskId confirmed resp st fx) \<noteq> st \<longrightarrow>
        confirmed \<and> resp = Fulfilled ()
        \<and> requests (snd (handleDeleteTask taskId confirmed resp st fx))
            = requests fx @ [Delete (''/tasks/'' @ taskId)])
   \<and> (confirmed \<and> resp = Fulfilled () \<longrightarrow>
        fst (handleDeleteTask taskId confirmed resp st fx)
          = st\<lparr>tl_tasks := filter (\<lambda>task. task_id task \<noteq> taskId) (tl_tasks st)\<rparr>)"
  by (cases resp) (auto simp: handleDeleteTask_def issue_def toast_success_def toast_error_def
        console_error_def Let_def)

theorem handleDeleteTask_needs_confirmation_witness:
  "tl_tasks (fst (handleDeleteTask ''t1'' False (Fulfilled ())
       (exampleTaskList [exampleTask ''t1'' ''pending'' None 1, exampleTask ''t2'' ''pending'' None 2] False)
       noEffects))
     = [exampleTask ''t1'' ''pending'' None 1, exampleTask ''t2'' ''pending'' None 2]
   \<and> requests (snd (handleDeleteTask ''t1'' False (Fulfilled ())
       (exampleTaskList [exampleTask ''t1'' ''pending'' None 1, exampleTask ''t2'' ''pending'' None 2] False)
       noEffects)) = []
   \<and> tl_tasks (fst (handleDeleteTask ''t1'' True (Fulfilled ())
       (exampleTaskList [exampleTask ''t1'' ''pending'' None 1, exampleTask ''t2'' ''pending'' None 2] False)
       noEffects))
     = [exampleTask ''t2'' ''pending'' None 2]"
  using handleDeleteTask_needs_confirmation [of False "''t1''" "Fulfilled ()"
      "exampleTaskList [exampleTask ''t1'' ''pending'' None 1, exampleTask ''t2'' ''pending'' None 2] False"
      noEffects]
    handleDeleteTask_needs_confirmation [of True "''t1''" "Fulfilled ()"
      "exampleTaskList [exampleTask ''t1'' ''pending'' None 1, exampleTask ''t2'' ''pending'' None 2] False"
      noEffects]
  by (simp add: exampleTaskList_def exampleTask_def noEffects_def)

section \<open>Properties of the recent tasks\<close>

lemma newest_first_neg:
  "created_at a \<noteq> InvalidDate \<Longrightarrow> created_at b \<noteq> InvalidDate \<Longrightarrow>
     newest_first a b < 0 \<longleftrightarrow> \<not> not_older b a"
  by (cases "created_at a"; cases "created_at b") (auto simp: newest_first_def not_older_def)

lemma not_older_trans:
  "not_older a b \<Longrightarrow> not_older b c \<Longrightarrow> not_older a c"
  by (cases "created_at a"; cases "created_at b"; cases "created_at c")
     (auto simp: not_older_def)

lemma not_older_total:
  "created_at a \<noteq> InvalidDate \<Longrightarrow> created_at b \<noteq> InvalidDate \<Longrightarrow>
     not_older a b \<or> not_older b a"
  by (cases "created_at a"; cases "created_at b") (auto simp: not_older_def)

lemma transp_not_older: "transp not_older"
  by (rule transpI) (rule not_older_trans)

lemma extend_run_append: "extend_run cmp d prev xs = (run, tail) \<Longrightarrow> run @ tail = xs"
  by (induction xs arbitrary: prev run tail) (auto simp: Let_def split: if_splits prod.splits)

lemma extend_run_chain:
  "extend_run cmp d prev xs = (run, tail) \<Longrightarrow>
     successively (\<lambda>p c. if d then cmp c p < 0 else \<not> cmp c p < 0) (prev # run)"
  by (induction xs arbitrary: prev run tail)
     (auto simp: Let_def successively_Cons split: if_splits prod.splits)

lemma extend_run_all:
  "successively (\<lambda>p c. \<not> cmp c p < 0) (prev # xs) \<Longrightarrow> extend_run cmp False prev xs = (xs, [])"
  by (induction xs arbitrary: prev) (auto simp: Let_def)

lemma CountAndMakeRun_parts:
  assumes "CountAndMakeRun cmp xs = (run, tail)"
  shows "set run \<union> set tail = set xs" "length run + length tail = length xs"
proof -
  have "set run \<union> set tail = set xs \<and> length run + length tail = length xs"
  proof (cases "(cmp, xs)" rule: CountAndMakeRun.cases)
    case (1 c)
    with assms show ?thesis by simp
  next
    case (2 c x)
    with assms show ?thesis by auto
  next
    case (3 c hi lo rest)
    obtain r t where e: "extend_run cmp (cmp lo hi < 0) lo rest = (r, t)" by fastforce
    from extend_run_append [OF e] have "r @ t = rest" .
    with assms 3 e show ?thesis by (auto simp: Let_def split: if_splits)
  qed
  then show "set run \<union> set tail = set xs" "length run + length tail = length xs" by simp_all
qed

lemma CountAndMakeRun_sorted:
  assumes "CountAndMakeRun newest_first xs = (run, tail)"
    and valid: "\<forall>t \<in> set xs. created_at t \<noteq> InvalidDate"
  shows "sorted_wrt not_older run"
proof (cases "(newest_first, xs)" rule: CountAndMakeRun.cases)
  case (1 c)
  with assms show ?thesis by simp
next
  case (2 c x)
  with assms show ?thesis by auto
next
  case (3 c hi lo rest)
  let ?d = "newest_first lo hi < 0"
  obtain r t where e: "extend_run newest_first ?d lo rest = (r, t)" by fastforce
  from extend_run_append [OF e] have rt: "r @ t = rest" .
  let ?whole = "hi # lo # r"
  have sub: "set ?whole \<subseteq> set xs" using 3 rt by auto
  have v: "\<forall>x \<in> set ?whole. created_at x \<noteq> InvalidDate" using valid sub by blast
  have chain: "successively (\<lambda>p c. if ?d then newest_first c p < 0 else \<not> newest_first c p < 0) ?whole"
    using extend_run_chain [OF e] by (simp add: successively_Cons)
  show ?thesis
  proof (cases ?d)
    case True
    have "successively (\<lambda>p c. not_older c p) ?whole"
    proof (rule successively_mono [OF chain])
      fix p c assume "p \<in> set ?whole" "c \<in> set ?whole"
        and "if ?d then newest_first c p < 0 else \<not> newest_first c p < 0"
      then have lt: "newest_first c p < 0" using True by (simp split: if_splits)
      have vp: "created_at p \<noteq> InvalidDate" and vc: "created_at c \<noteq> InvalidDate"
        using v \<open>p \<in> set ?whole\<close> \<open>c \<in> set ?whole\<close> by blast+
      from lt newest_first_neg [OF vc vp] have "\<not> not_older p c" by blast
      with not_older_total [OF vp vc] show "not_older c p" by blast
    qed
    then have "successively not_older (rev ?whole)" by (simp only: successively_rev)
    then have "sorted_wrt not_older (rev ?whole)"
      by (simp only: successively_conv_sorted_wrt [OF transp_not_older])
    with assms(1) 3 e True show ?thesis by (auto simp: Let_def)
  next
    case False
    have "successively not_older ?whole"
    proof (rule successively_mono [OF chain])
      fix p c assume "p \<in> set ?whole" "c \<in> set ?whole"
        and "if ?d then newest_first c p < 0 else \<not> newest_first c p < 0"
      then have ge: "\<not> newest_first c p < 0" using False by (simp split: if_splits)
      have vp: "created_at p \<noteq> InvalidDate" and vc: "created_at c \<noteq> InvalidDate"
        using v \<open>p \<in> set ?whole\<close> \<open>c \<in> set ?whole\<close> by blast+
      from ge newest_first_neg [OF vc vp] show "not_older p c" by blast
    qed
    then have "sorted_wrt not_older ?whole"
      by (simp only: successively_conv_sorted_wrt [OF transp_not_older])
    with assms(1) 3 e False show ?thesis by (auto simp: Let_def)
  qed
qed

lemma bsearch_spec:
  assumes "\<forall>j k. j \<le> k \<and> k < length xs \<and> cmp pivot (xs ! j) < 0 \<longrightarrow> cmp pivot (xs ! k) < 0"
    and "left \<le> right" "right \<le> length xs"
    and "\<forall>j<left. \<not> cmp pivot (xs ! j) < 0"
    and "\<forall>j. right \<le> j \<and> j < length xs \<longrightarrow> cmp pivot (xs ! j) < 0"
  shows "left \<le> bsearch cmp pivot xs left right \<and> bsearch cmp pivot xs left right \<le> right
    \<and> (\<forall>j<bsearch cmp pivot xs left right. \<not> cmp pivot (xs ! j) < 0)
    \<and> (\<forall>j. bsearch cmp pivot xs left right \<le> j \<and> j < length xs \<longrightarrow> cmp pivot (xs ! j) < 0)"
  using assms
proof (induction cmp pivot xs left right rule: bsearch.induct)
  case (1 cmp pivot xs left right)
  show ?case
  proof (cases "left < right")
    case False
    with "1.prems" have "left = right" by simp
    moreover have "bsearch cmp pivot xs left right = left"
      using False by (subst bsearch.simps) simp
    ultimately show ?thesis using "1.prems" by simp
  next
    case True
    define mid where "mid = left + (right - left) div 2"
    have m: "left \<le> mid" "mid < right" using True by (simp_all add: mid_def)
    show ?thesis
    proof (cases "cmp pivot (xs ! mid) < 0")
      case lt: True
      have step: "bsearch cmp pivot xs left right = bsearch cmp pivot xs left mid"
        using True lt by (subst bsearch.simps) (simp add: mid_def Let_def)
      have up: "\<forall>j. mid \<le> j \<and> j < length xs \<longrightarrow> cmp pivot (xs ! j) < 0"
        using "1.prems"(1) lt by blast
      have "left \<le> bsearch cmp pivot xs left mid \<and> bsearch cmp pivot xs left mid \<le> mid
        \<and> (\<forall>j<bsearch cmp pivot xs left mid. \<not> cmp pivot (xs ! j) < 0)
        \<and> (\<forall>j. bsearch cmp pivot xs left mid \<le> j \<and> j < length xs \<longrightarrow> cmp pivot (xs ! j) < 0)"
        using "1.IH"(1) [OF True mid_def lt "1.prems"(1) m(1) _ "1.prems"(4) up] m(2) "1.prems"(3)
        by simp
      with m(2) show ?thesis unfolding step by simp
    next
      case ge: False
      have step: "bsearch cmp pivot xs left right = bsearch cmp pivot xs (mid + 1) right"
        using True ge by (subst bsearch.simps) (simp add: mid_def Let_def)
      have low: "\<forall>j<mid + 1. \<not> cmp pivot (xs ! j) < 0"
      proof (intro allI impI)
        fix j assume "j < mid + 1"
        then have "j \<le> mid" by simp
        moreover have "mid < length xs" using m(2) "1.prems"(3) by simp
        ultimately show "\<not> cmp pivot (xs ! j) < 0" using "1.prems"(1) ge by blast
      qed
      have "mid + 1 \<le> bsearch cmp pivot xs (mid + 1) right
        \<and> bsearch cmp pivot xs (mid + 1) right \<le> right
        \<and> (\<forall>j<bsearch cmp pivot xs (mid + 1) right. \<not> cmp pivot (xs ! j) < 0)
        \<and> (\<forall>j. bsearch cmp pivot xs (mid + 1) right \<le> j \<and> j < length xs
              \<longrightarrow> cmp pivot (xs ! j) < 0)"
        using "1.IH"(2) [OF True mid_def ge "1.prems"(1) _ "1.prems"(3) low "1.prems"(5)] m(2)
        by simp
      with m(1) show ?thesis unfolding step by simp
    qed
  qed
qed

lemma set_insert_pivot: "set (insert_pivot cmp front pivot) = insert pivot (set front)"
proof -
  have "set (take n front) \<union> set (drop n front) = set front" for n
    by (metis append_take_drop_id set_append)
  then show ?thesis by (auto simp: insert_pivot_def Let_def)
qed

lemma length_insert_pivot: "length (insert_pivot cmp front pivot) = Suc (length front)"
proof -
  have "bsearch cmp pivot front 0 (length front) \<le> length front"
  proof -
    have "\<And>left right. left \<le> right \<Longrightarrow> bsearch cmp pivot front left right \<le> right"
    proof -
      fix left right :: nat
      show "left \<le> right \<Longrightarrow> bsearch cmp pivot front left right \<le> right"
      proof (induction cmp pivot front left right rule: bsearch.induct)
        case (1 cmp pivot xs left right)
        show ?case
        proof (cases "left < right")
          case False
          then show ?thesis using "1.prems" by (subst bsearch.simps) simp
        next
          case True
          define mid where "mid = left + (right - left) div 2"
          have m: "left \<le> mid" "mid < right" using True by (simp_all add: mid_def)
          show ?thesis
          proof (cases "cmp pivot (xs ! mid) < 0")
            case lt: True
            have "bsearch cmp pivot xs left right = bsearch cmp pivot xs left mid"
              using True lt by (subst bsearch.simps) (simp add: mid_def Let_def)
            moreover have "bsearch cmp pivot xs left mid \<le> mid"
              using "1.IH"(1) [OF True mid_def lt m(1)] .
            ultimately show ?thesis using m(2) by simp
          next
            case ge: False
            have "bsearch cmp pivot xs left right = bsearch cmp pivot xs (mid + 1) right"
              using True ge by (subst bsearch.simps) (simp add: mid_def Let_def)
            moreover have "bsearch cmp pivot xs (mid + 1) right \<le> right"
              using "1.IH"(2) [OF True mid_def ge] m(2) by simp
            ultimately show ?thesis by simp
          qed
        qed
      qed
    qed
    from this [of 0 "length front"] show ?thesis by simp
  qed
  then show ?thesis by (simp add: insert_pivot_def Let_def)
qed

lemma insert_pivot_sorted:
  assumes s: "sorted_wrt not_older front"
    and v: "\<forall>t \<in> set front. created_at t \<noteq> InvalidDate" "created_at pivot \<noteq> InvalidDate"
  shows "sorted_wrt not_older (insert_pivot newest_first front pivot)"
proof -
  define i where "i = bsearch newest_first pivot front 0 (length front)"
  have vn: "created_at (front ! j) \<noteq> InvalidDate" if "j < length front" for j
    using v(1) that by simp
  have mono: "\<forall>j k. j \<le> k \<and> k < length front \<and> newest_first pivot (front ! j) < 0
      \<longrightarrow> newest_first pivot (front ! k) < 0"
  proof (intro allI impI)
    fix j k assume h: "j \<le> k \<and> k < length front \<and> newest_first pivot (front ! j) < 0"
    then have jl: "j < length front" and kl: "k < length front" by simp_all
    from h newest_first_neg [OF v(2) vn [OF jl]] have nj: "\<not> not_older (front ! j) pivot" by blast
    have jk: "j = k \<or> not_older (front ! j) (front ! k)"
      using h s kl by (cases "j = k") (auto simp: sorted_wrt_nth_less)
    have "\<not> not_older (front ! k) pivot"
    proof
      assume "not_older (front ! k) pivot"
      with jk have "not_older (front ! j) pivot" by (auto intro: not_older_trans)
      with nj show False ..
    qed
    with newest_first_neg [OF v(2) vn [OF kl]] show "newest_first pivot (front ! k) < 0" by blast
  qed
  have spec: "i \<le> length front
    \<and> (\<forall>j<i. \<not> newest_first pivot (front ! j) < 0)
    \<and> (\<forall>j. i \<le> j \<and> j < length front \<longrightarrow> newest_first pivot (front ! j) < 0)"
  proof -
    have a: "(0::nat) \<le> length front" and b: "length front \<le> length front" by simp_all
    have c: "\<forall>j<0::nat. \<not> newest_first pivot (front ! j) < 0" by simp
    have d: "\<forall>j. length front \<le> j \<and> j < length front \<longrightarrow> newest_first pivot (front ! j) < 0"
      by simp
    from bsearch_spec [of front newest_first pivot 0 "length front", OF mono a b c d]
    show ?thesis unfolding i_def by blast
  qed
  have before: "\<forall>x \<in> set (take i front). not_older x pivot"
  proof
    fix x assume "x \<in> set (take i front)"
    then obtain j where j: "j < i" "j < length front" "x = front ! j"
      by (auto simp: in_set_conv_nth)
    with spec have "\<not> newest_first pivot (front ! j) < 0" by blast
    with newest_first_neg [OF v(2) vn [OF j(2)]] j(3) show "not_older x pivot" by blast
  qed
  have after: "\<forall>y \<in> set (drop i front). not_older pivot y"
  proof
    fix y assume "y \<in> set (drop i front)"
    then obtain k where k0: "k < length front - i" and ky: "y = front ! (i + k)"
      using spec by (auto simp: in_set_conv_nth)
    from k0 have "i + k < length front" by linarith
    note k = this ky
    with spec have "newest_first pivot (front ! (i + k)) < 0" by simp
    with newest_first_neg [OF v(2) vn [OF k(1)]] have "\<not> not_older y pivot" using k(2) by blast
    with not_older_total [OF v(2) vn [OF k(1)]] k(2) show "not_older pivot y" by blast
  qed
  have "sorted_wrt not_older (take i front @ drop i front)" using s by simp
  then have parts: "sorted_wrt not_older (take i front)" "sorted_wrt not_older (drop i front)"
    "\<forall>x \<in> set (take i front). \<forall>y \<in> set (drop i front). not_older x y"
    by (simp_all only: sorted_wrt_append) blast+
  have "sorted_wrt not_older (take i front @ pivot # drop i front)"
    using parts before after by (simp add: sorted_wrt_append)
  then show ?thesis by (simp add: insert_pivot_def Let_def i_def)
qed

lemma BinaryInsertionSort_parts:
  "set (BinaryInsertionSort cmp run rest) = set run \<union> set rest
   \<and> length (BinaryInsertionSort cmp run rest) = length run + length rest"
  unfolding BinaryInsertionSort_def
  by (induction rest arbitrary: run) (auto simp: set_insert_pivot length_insert_pivot)

lemma BinaryInsertionSort_sorted:
  "sorted_wrt not_older run \<Longrightarrow> \<forall>t \<in> set run \<union> set rest. created_at t \<noteq> InvalidDate \<Longrightarrow>
     sorted_wrt not_older (BinaryInsertionSort newest_first run rest)"
  unfolding BinaryInsertionSort_def
proof (induction rest arbitrary: run)
  case Nil
  then show ?case by simp
next
  case (Cons p rest)
  have "sorted_wrt not_older (insert_pivot newest_first run p)"
    using Cons.prems by (intro insert_pivot_sorted) auto
  moreover have "\<forall>t \<in> set (insert_pivot newest_first run p) \<union> set rest. created_at t \<noteq> InvalidDate"
    using Cons.prems by (auto simp: set_insert_pivot)
  ultimately show ?case using Cons.IH by simp
qed

lemma set_js_sort: "set (js_sort cmp xs) = set xs"
proof -
  obtain run rest where e: "CountAndMakeRun cmp xs = (run, rest)" by fastforce
  with CountAndMakeRun_parts(1) [OF e] BinaryInsertionSort_parts [of cmp run rest]
  show ?thesis by (simp add: js_sort_def)
qed

lemma length_js_sort: "length (js_sort cmp xs) = length xs"
proof -
  obtain run rest where e: "CountAndMakeRun cmp xs = (run, rest)" by fastforce
  with CountAndMakeRun_parts(2) [OF e] BinaryInsertionSort_parts [of cmp run rest]
  show ?thesis by (simp add: js_sort_def)
qed

lemma sorted_js_sort:
  assumes "\<forall>t \<in> set xs. created_at t \<noteq> InvalidDate"
  shows "sorted_wrt not_older (js_sort newest_first xs)"
proof -
  obtain run rest where e: "CountAndMakeRun newest_first xs = (run, rest)" by fastforce
  have "sorted_wrt not_older run" using e assms by (rule CountAndMakeRun_sorted)
  moreover have "\<forall>t \<in> set run \<union> set rest. created_at t \<noteq> InvalidDate"
    using CountAndMakeRun_parts(1) [OF e] assms by simp
  ultimately have "sorted_wrt not_older (BinaryInsertionSort newest_first run rest)"
    by (rule BinaryInsertionSort_sorted)
  with e show ?thesis by (simp add: js_sort_def)
qed

lemma js_sort_sorted_id:
  assumes v: "\<forall>t \<in> set xs. created_at t \<noteq> InvalidDate" and s: "sorted_wrt not_older xs"
  shows "js_sort newest_first xs = xs"
proof -
  have chain: "successively (\<lambda>p c. \<not> newest_first c p < 0) xs"
  proof (rule successively_mono [OF successively_if_sorted_wrt [OF s]])
    fix p c assume "p \<in> set xs" "c \<in> set xs" "not_older p c"
    with v newest_first_neg [of c p] show "\<not> newest_first c p < 0" by blast
  qed
  have "CountAndMakeRun newest_first xs = (xs, [])"
  proof (cases "(newest_first, xs)" rule: CountAndMakeRun.cases)
    case (1 c)
    then show ?thesis by simp
  next
    case (2 c x)
    then show ?thesis by auto
  next
    case (3 c hi lo rest)
    with chain have nd: "\<not> newest_first lo hi < 0"
      and rest: "successively (\<lambda>p c. \<not> newest_first c p < 0) (lo # rest)" by simp_all
    from extend_run_all [OF rest] nd 3 show ?thesis by (simp add: Let_def)
  qed
  then show ?thesis by (simp add: js_sort_def BinaryInsertionSort_def)
qed

text \<open>
  Claim C7, as the code has it. For a fetched task collection whose creation dates are all
  valid, the recent tasks are at most five (five, or all of them when there are fewer),
  all taken from the collection and ordered by \<open>created_at\<close> descending. Deriving them
  again gives the same list, both from the fetched array as the first call left it
  (sorted in place) and from the derived list itself.
\<close>

theorem sortedTasks_five_newest_first:
  "(\<forall>t \<in> set data. created_at t \<noteq> InvalidDate) \<longrightarrow>
     length (sortedTasks data) \<le> 5
     \<and> length (sortedTasks data) = min 5 (length data)
     \<and> set (sortedTasks data) \<subseteq> set data
     \<and> sorted_wrt not_older (sortedTasks data)
     \<and> sortedTasks (js_sort newest_first data) = sortedTasks data
     \<and> sortedTasks (sortedTasks data) = sortedTasks data"
proof
  assume valid0: "\<forall>t \<in> set data. created_at t \<noteq> InvalidDate"
  let ?s = "js_sort newest_first data"
  have valid: "\<forall>t \<in> set ?s. created_at t \<noteq> InvalidDate" using valid0 by (simp add: set_js_sort)
  have sorted: "sorted_wrt not_older ?s" using valid0 by (rule sorted_js_sort)
  have len: "length (sortedTasks data) = min 5 (length data)"
    by (simp add: sortedTasks_def length_js_sort min.commute)
  have sub: "set (sortedTasks data) \<subseteq> set data"
    using set_take_subset [of 5 ?s] by (simp add: sortedTasks_def set_js_sort)
  have s5: "sorted_wrt not_older (take 5 ?s)" using sorted by (rule sorted_wrt_take)
  have again: "js_sort newest_first ?s = ?s" using valid sorted by (rule js_sort_sorted_id)
  have valid5: "\<forall>t \<in> set (take 5 ?s). created_at t \<noteq> InvalidDate"
    using valid set_take_subset [of 5 ?s] by blast
  have idem: "js_sort newest_first (take 5 ?s) = take 5 ?s"
    using valid5 s5 by (rule js_sort_sorted_id)
  from len sub s5 again idem
  show "length (sortedTasks data) \<le> 5
     \<and> length (sortedTasks data) = min 5 (length data)
     \<and> set (sortedTasks data) \<subseteq> set data
     \<and> sorted_wrt not_older (sortedTasks data)
     \<and> sortedTasks (js_sort newest_first data) = sortedTasks data
     \<and> sortedTasks (sortedTasks data) = sortedTasks data"
    by (simp add: sortedTasks_def)
qed

lemma exampleData_sorted:
  "map task_id (sortedTasks exampleData) = [''b'', ''e'', ''f'', ''g'', ''a'']"
  by code_simp


theorem sortedTasks_five_newest_first_witness:
  "map task_id (sortedTasks exampleData) = [''b'', ''e'', ''f'', ''g'', ''a'']
   \<and> length (sortedTasks exampleData) = 5
   \<and> sorted_wrt not_older (sortedTasks exampleData)
   \<and> sortedTasks (sortedTasks exampleData) = sortedTasks exampleData"
proof -
  have valid: "\<forall>t \<in> set exampleData. created_at t \<noteq> InvalidDate"
    by (simp add: exampleData_def exampleTask_def)
  have "length exampleData = 7" by (simp add: exampleData_def)
  with sortedTasks_five_newest_first [THEN mp, OF valid] exampleData_sorted show ?thesis by simp
qed

text \<open>
  The claim as it is worded, for every fetched collection, fails when a creation date does
  not parse: the comparator then answers \<open>NaN\<close> for every pair with that task, which the
  sort reads as equal, and the three tasks created at 3, at an invalid date and at 9 stay
  in this order, the older of the two dated tasks before the newer.
\<close>

theorem sortedTasks_unparsed_counterexample:
  "sortedTasks exampleUnparsed = exampleUnparsed
   \<and> map task_id (sortedTasks exampleUnparsed) = [''a'', ''n'', ''b'']
   \<and> map created_at (sortedTasks exampleUnparsed) = [Instant 3, InvalidDate, Instant 9]
   \<and> \<not> sorted_wrt not_older (sortedTasks exampleUnparsed)"
  by code_simp

section \<open>Properties of the quick status actions\<close>

lemma taskCard_Some:
  "taskCard (Some u) t =
     (if due_date t = Some InvalidDate then Inl RangeError
      else Inr (taskMenu (Some u) t @
             (case quickActions (Some u) t of Inr q \<Rightarrow> q | Inl _ \<Rightarrow> [])))"
  by (cases "due_date t" rule: formatDate.cases) (simp_all add: taskCard_def quickActions_def)

lemma renderCards_Some:
  "renderCards (Some u) ts =
     (if \<exists>t \<in> set ts. due_date t = Some InvalidDate then Inl RangeError
      else Inr (concat (map (\<lambda>t. taskMenu (Some u) t @
             (case quickActions (Some u) t of Inr q \<Rightarrow> q | Inl _ \<Rightarrow> [])) ts)))"
  by (induction ts) (auto simp: taskCard_Some)

lemma createTaskDialog_Some:
  "createTaskDialog (Some u) d b =
     (if role u = ''admin'' \<or> role u = ''manager''
      then (if draft_due_date d = Some InvalidDate then Inl RangeError
            else Inr (Button ''Create Task'' (SetShowCreateDialog True) #
                   (if b then [Button ''Cancel'' (SetShowCreateDialog False),
                               Button ''Create Task'' SubmitForm]
                    else [])))
      else Inr [])"
  by (simp add: createTaskDialog_def roleOf_def)

lemma TaskList_render_Some:
  "TaskList_render (Some u) st =
     (if tl_loading st then Inr []
      else if (role u = ''admin'' \<or> role u = ''manager'')
              \<and> draft_due_date (tl_newTask st) = Some InvalidDate then Inl RangeError
      else if \<exists>t \<in> set (filteredTasks (tl_tasks st) (tl_searchTerm st) (tl_statusFilter st)
                            (tl_priorityFilter st)). due_date t = Some InvalidDate
           then Inl RangeError
      else Inr ((if role u = ''admin'' \<or> role u = ''manager''
                 then Button ''Create Task'' (SetShowCreateDialog True) #
                      (if tl_showCreateDialog st
                       then [Button ''Cancel'' (SetShowCreateDialog False),
                             Button ''Create Task'' SubmitForm]
                       else [])
                 else []) @
            (let shown = filteredTasks (tl_tasks st) (tl_searchTerm st) (tl_statusFilter st)
                           (tl_priorityFilter st)
             in if shown = []
                then (if role u = ''admin'' \<or> role u = ''manager''
                      then [Button ''Create Task'' (SetShowCreateDialog True)] else [])
                else concat (map (\<lambda>t. taskMenu (Some u) t @
                       (case quickActions (Some u) t of Inr q \<Rightarrow> q | Inl _ \<Rightarrow> [])) shown))))"
  by (simp add: TaskList_render_def renderCards_Some createTaskDialog_Some Let_def roleOf_def)

lemma quickActions_cases:
  assumes "quickActions (Some u) t = Inr acts" "a \<in> set acts"
  shows "assigned_to t = Some (user_id u) \<and>
     ((status t = ''pending'' \<and>
        a = Button ''Start'' (CallUpdateTask (task_id t) [(''status'', Some ''in_progress'')])) \<or>
      (status t = ''in_progress'' \<and>
        a = Button ''Complete'' (CallUpdateTask (task_id t) [(''status'', Some ''completed'')])))"
  using assms by (auto simp: quickActions_def split: if_splits)

lemma taskMenu_no_update:
  "a \<in> set (taskMenu user t) \<Longrightarrow> action_of a \<noteq> Some (CallUpdateTask i upd)"
  by (auto simp: taskMenu_def split: if_splits)

lemma TaskList_render_controls:
  assumes "TaskList_render (Some u) st = Inr affs" "a \<in> set affs"
  shows "a \<in> {Button ''Create Task'' (SetShowCreateDialog True),
              Button ''Cancel'' (SetShowCreateDialog False), Button ''Create Task'' SubmitForm}
     \<or> (\<exists>t \<in> set (filteredTasks (tl_tasks st) (tl_searchTerm st) (tl_statusFilter st)
                      (tl_priorityFilter st)).
           a \<in> set (taskMenu (Some u) t) \<or>
           (\<exists>q. quickActions (Some u) t = Inr q \<and> a \<in> set q))"
  using assms
  by (auto simp: TaskList_render_Some Let_def quickActions_def split: if_splits)

text \<open>
  Claim C5. For every task and every session with a user, a control of the rendered task
  list that calls \<open>handleUpdateTask\<close> belongs to a listed task assigned to the current
  user, and it is either \<open>Start\<close> on a pending task, asking for \<open>in_progress\<close>, or
  \<open>Complete\<close> on a task in progress, asking for \<open>completed\<close>. A completed task and a task
  assigned to somebody else (or to nobody) get no quick action. The call issues the
  \<open>PUT\<close> request for that task with exactly that status change as its body.
\<close>

theorem quick_actions_only_for_assignee:
  "(TaskList_render (Some u) st = Inr affs \<and> a \<in> set affs
      \<and> action_of a = Some (CallUpdateTask i upd) \<longrightarrow>
      (\<exists>t \<in> set (tl_tasks st). task_id t = i \<and> assigned_to t = Some (user_id u) \<and>
         ((status t = ''pending'' \<and> a = Button ''Start'' (CallUpdateTask i upd)
             \<and> upd = [(''status'', Some ''in_progress'')]) \<or>
          (status t = ''in_progress'' \<and> a = Button ''Complete'' (CallUpdateTask i upd)
             \<and> upd = [(''status'', Some ''completed'')]))))
   \<and> (status t = ''completed'' \<or> assigned_to t \<noteq> Some (user_id u)
        \<longrightarrow> quickActions (Some u) t = Inr [])
   \<and> requests (snd (handleUpdateTask i upd resp st fx)) = requests fx @ [Put (''/tasks/'' @ i) upd]"
proof (intro conjI impI)
  assume h: "TaskList_render (Some u) st = Inr affs \<and> a \<in> set affs
      \<and> action_of a = Some (CallUpdateTask i upd)"
  let ?shown = "filteredTasks (tl_tasks st) (tl_searchTerm st) (tl_statusFilter st) (tl_priorityFilter st)"
  have sub: "set ?shown \<subseteq> set (tl_tasks st)" by (auto simp: filteredTasks_def)
  from h have r: "TaskList_render (Some u) st = Inr affs" and a: "a \<in> set affs"
    and act: "action_of a = Some (CallUpdateTask i upd)" by blast+
  from TaskList_render_controls [OF r a] act
  have "\<exists>t \<in> set ?shown. a \<in> set (taskMenu (Some u) t) \<or>
         (\<exists>q. quickActions (Some u) t = Inr q \<and> a \<in> set q)"
    by auto
  with act obtain t q where t: "t \<in> set ?shown" "quickActions (Some u) t = Inr q" "a \<in> set q"
    using taskMenu_no_update by blast
  from quickActions_cases [OF t(2) t(3)] act t(1) sub
  show "\<exists>t \<in> set (tl_tasks st). task_id t = i \<and> assigned_to t = Some (user_id u) \<and>
         ((status t = ''pending'' \<and> a = Button ''Start'' (CallUpdateTask i upd)
             \<and> upd = [(''status'', Some ''in_progress'')]) \<or>
          (status t = ''in_progress'' \<and> a = Button ''Complete'' (CallUpdateTask i upd)
             \<and> upd = [(''status'', Some ''completed'')]))"
    by (intro bexI [of _ t]) auto
next
  assume "status t = ''completed'' \<or> assigned_to t \<noteq> Some (user_id u)"
  then show "quickActions (Some u) t = Inr []" by (auto simp: quickActions_def)
next
  show "requests (snd (handleUpdateTask i upd resp st fx)) = requests fx @ [Put (''/tasks/'' @ i) upd]"
    by (cases resp) (simp_all add: handleUpdateTask_def issue_def toast_success_def
          toast_error_def console_error_def Let_def)
qed

lemma exampleCards_render:
  "TaskList_render (Some (exampleUser ''u1'' ''employee'')) (exampleTaskList exampleCards False)
     = Inr [MenuItem ''Edit'' (StartEditingTask ''t1''),
            Button ''Start'' (CallUpdateTask ''t1'' [(''status'', Some ''in_progress'')]),
            MenuItem ''Edit'' (StartEditingTask ''t2''),
            Button ''Complete'' (CallUpdateTask ''t2'' [(''status'', Some ''completed'')]),
            MenuItem ''Edit'' (StartEditingTask ''t3'')]"
  by code_simp

theorem quick_actions_only_for_assignee_witness:
  "TaskList_render (Some (exampleUser ''u1'' ''employee'')) (exampleTaskList exampleCards False)
     = Inr [MenuItem ''Edit'' (StartEditingTask ''t1''),
            Button ''Start'' (CallUpdateTask ''t1'' [(''status'', Some ''in_progress'')]),
            MenuItem ''Edit'' (StartEditingTask ''t2''),
            Button ''Complete'' (CallUpdateTask ''t2'' [(''status'', Some ''completed'')]),
            MenuItem ''Edit'' (StartEditingTask ''t3'')]
   \<and> (\<exists>t \<in> set (tl_tasks (exampleTaskList exampleCards False)).
         task_id t = ''t1'' \<and> assigned_to t = Some (user_id (exampleUser ''u1'' ''employee''))
         \<and> status t = ''pending'')
   \<and> quickActions (Some (exampleUser ''u1'' ''employee''))
        (exampleTask ''t3'' ''completed'' (Some ''u1'') 3) = Inr []
   \<and> quickActions (Some (exampleUser ''u1'' ''employee''))
        (exampleTask ''t4'' ''pending'' (Some ''u2'') 4) = Inr []"
proof -
  let ?u = "exampleUser ''u1'' ''employee''"
  let ?st = "exampleTaskList exampleCards False"
  let ?a = "Button ''Start'' (CallUpdateTask ''t1'' [(''status'', Some ''in_progress'')])"
  let ?affs = "[MenuItem ''Edit'' (StartEditingTask ''t1''), ?a,
            MenuItem ''Edit'' (StartEditingTask ''t2''),
            Button ''Complete'' (CallUpdateTask ''t2'' [(''status'', Some ''completed'')]),
            MenuItem ''Edit'' (StartEditingTask ''t3'')]"
  note inst = quick_actions_only_for_assignee [of ?u ?st ?affs ?a "''t1''"
      "[(''status'', Some ''in_progress'')]"]
  have 1: "\<exists>t \<in> set (tl_tasks ?st). task_id t = ''t1'' \<and> assigned_to t = Some (user_id ?u)
         \<and> status t = ''pending''"
    using inst [of "exampleTask ''t3'' ''completed'' (Some ''u1'') 3"] exampleCards_render
    by simp
  have 2: "quickActions (Some ?u) (exampleTask ''t3'' ''completed'' (Some ''u1'') 3) = Inr []"
    using inst [of "exampleTask ''t3'' ''completed'' (Some ''u1'') 3"]
    by (simp add: exampleTask_def)
  have 3: "quickActions (Some ?u) (exampleTask ''t4'' ''pending'' (Some ''u2'') 4) = Inr []"
    using inst [of "exampleTask ''t4'' ''pending'' (Some ''u2'') 4"]
    by (simp add: exampleTask_def exampleUser_def)
  from exampleCards_render 1 2 3 show ?thesis by (intro conjI)
qed

section \<open>Properties of the failure notifications\<close>

text \<open>
  Claim C8, as the code has it. A rejected request, whether the transport failed or the
  API answered with an error, makes each of these handlers show exactly one error
  notification: loading the tasks, creating, updating and deleting a task, loading the
  users of the user management, creating and updating a user, and loading the dashboard
  (when either of its two requests is rejected). The text is the fixed message of the
  handler, whatever the payload of the error carries. Creating a user is the one handler
  that shows the \<open>detail\<close> of the payload, when it is there and not empty, and its fixed
  message otherwise.
\<close>

theorem failed_calls_notify_once:
  "toasts (snd (fetchTasks (Rejected e) tst fx)) = toasts fx @ [ToastError ''Failed to load tasks'']
   \<and> toasts (snd (handleCreateTask (Rejected e) tst fx))
       = toasts fx @ [ToastError ''Failed to create task'']
   \<and> toasts (snd (handleUpdateTask i upd (Rejected e) tst fx))
       = toasts fx @ [ToastError ''Failed to update task'']
   \<and> toasts (snd (handleDeleteTask i True (Rejected e) tst fx))
       = toasts fx @ [ToastError ''Failed to delete task'']
   \<and> toasts (snd (fetchUsers (Rejected e) ust fx)) = toasts fx @ [ToastError ''Failed to load users'']
   \<and> toasts (snd (handleCreateUser (Rejected e) ust fx))
       = toasts fx @ [ToastError (detail_or e ''Failed to create user'')]
   \<and> toasts (snd (handleUpdateUser i upd (Rejected e) ust fx))
       = toasts fx @ [ToastError ''Failed to update user'']
   \<and> toasts (snd (fetchDashboardData (Rejected e) tasksResponse dst fx))
       = toasts fx @ [ToastError ''Failed to load dashboard data'']
   \<and> toasts (snd (fetchDashboardData statsResponse (Rejected e) dst fx))
       = toasts fx @ [ToastError ''Failed to load dashboard data'']
   \<and> detail_or (ApiError (Some (c # cs))) fallback = c # cs
   \<and> detail_or (ApiError (Some [])) fallback = fallback
   \<and> detail_or (ApiError None) fallback = fallback
   \<and> detail_or NetworkError fallback = fallback"
proof -
  have tl: "toasts (snd (fetchTasks (Rejected e) tst fx)) = toasts fx @ [ToastError ''Failed to load tasks'']"
    "toasts (snd (handleCreateTask (Rejected e) tst fx))
       = toasts fx @ [ToastError ''Failed to create task'']"
    "toasts (snd (handleUpdateTask i upd (Rejected e) tst fx))
       = toasts fx @ [ToastError ''Failed to update task'']"
    "toasts (snd (handleDeleteTask i True (Rejected e) tst fx))
       = toasts fx @ [ToastError ''Failed to delete task'']"
    by (simp_all add: fetchTasks_def handleCreateTask_def handleUpdateTask_def
          handleDeleteTask_def issue_def toast_error_def console_error_def Let_def)
  have um: "toasts (snd (fetchUsers (Rejected e) ust fx)) = toasts fx @ [ToastError ''Failed to load users'']"
    "toasts (snd (handleCreateUser (Rejected e) ust fx))
       = toasts fx @ [ToastError (detail_or e ''Failed to create user'')]"
    "toasts (snd (handleUpdateUser i upd (Rejected e) ust fx))
       = toasts fx @ [ToastError ''Failed to update user'']"
    by (simp_all add: fetchUsers_def handleCreateUser_def handleUpdateUser_def
          issue_def toast_error_def console_error_def Let_def)
  have db1: "toasts (snd (fetchDashboardData (Rejected e) tasksResponse dst fx))
       = toasts fx @ [ToastError ''Failed to load dashboard data'']"
    by (cases tasksResponse)
       (simp_all add: fetchDashboardData_def issue_def toast_error_def console_error_def Let_def)
  have db2: "toasts (snd (fetchDashboardData statsResponse (Rejected e) dst fx))
       = toasts fx @ [ToastError ''Failed to load dashboard data'']"
    by (cases statsResponse)
       (simp_all add: fetchDashboardData_def issue_def toast_error_def console_error_def Let_def)
  from tl um db1 db2 show ?thesis by simp
qed

text \<open>
  The claim as it is worded fails on two calls: a rejected task creation whose payload
  carries a detail shows the fixed message and not the detail, and a rejected user fetch
  of the task list shows no notification at all (it only writes to the console).
\<close>

theorem failed_calls_counterexample:
  "toasts (snd (handleCreateTask (Rejected (ApiError (Some ''Title is too long'')))
       (exampleTaskList [] False) noEffects)) = [ToastError ''Failed to create task'']
   \<and> toasts (snd (TaskList_fetchUsers (Rejected NetworkError)
       (exampleTaskList [] False) noEffects)) = []"
  by (simp add: handleCreateTask_def TaskList_fetchUsers_def exampleTaskList_def noEffects_def
        emptyTask_def issue_def toast_error_def console_error_def Let_def)

section \<open>Properties of the role gates\<close>




text \<open>
  When a listed task has a due date that does not parse, or the draft of the create dialog
  of an admin or a manager has one, the loaded task list throws and renders nothing.
\<close>

lemma TaskList_render_unparsed_due_date:
  assumes "\<not> tl_loading st"
    and "((role u = ''admin'' \<or> role u = ''manager'')
            \<and> draft_due_date (tl_newTask st) = Some InvalidDate)
         \<or> (\<exists>t \<in> set (filteredTasks (tl_tasks st) (tl_searchTerm st) (tl_statusFilter st)
                          (tl_priorityFilter st)). due_date t = Some InvalidDate)"
  shows "TaskList_render (Some u) st = Inl RangeError"
  using assms by (auto simp: TaskList_render_Some)









end
